(* ===== verification/Prelude.thy ===== *)
theory Prelude
  imports Main "HOL-Library.Word"
begin

text \<open>
  What every component shares: the names of the machine integer types, the casts of the
  source (\<open>as\<close>), the bytes of a big-endian \<open>u32\<close>, a zero block, and the generic lemmas
  on words and lists that the component proofs use. The collection \<open>word_arith\<close> gathers the
  facts that move a word goal to the natural numbers; \<open>layout\<close> those about positions in a
  region file.

  Arithmetic is that of the release profile: \<open>+\<close>, \<open>-\<close> and \<open>*\<close> on words wrap around, as the
  source's do when overflow checks are off (\<open>[profile.release]\<close> of Cargo.toml leaves them off).
\<close>

unbundle bit_operations_syntax

named_theorems word_arith
named_theorems layout

type_synonym u8 = "8 word"
type_synonym u16 = "16 word"
type_synonym u32 = "32 word"
type_synonym u64 = "64 word"
type_synonym i8 = "8 word"
type_synonym i16 = "16 word"
type_synonym i32 = "32 word"
type_synonym i64 = "64 word"
type_synonym bytes = "8 word list"

text \<open>Signed types are the same words read with \<open>sint\<close>; the names keep the source's types
  readable. A chunk is addressed by its two absolute coordinates.\<close>

type_synonym chunk_pos = "i32 \<times> i32"

abbreviation zeros :: "nat \<Rightarrow> bytes" where
  "zeros n \<equiv> replicate n 0"

text \<open>\<open>Result::ok\<close>.\<close>

primrec ok_value :: "'e + 'a \<Rightarrow> 'a option" where
  "ok_value (Inl e) = None"
| "ok_value (Inr a) = Some a"

lemma ok_value_Some [simp]: "ok_value r = Some a \<longleftrightarrow> r = Inr a"
  by (cases r) simp_all

lemma ok_value_None: "ok_value r = None \<longleftrightarrow> (\<exists>e. r = Inl e)"
  by (cases r) simp_all

subsection \<open>Big-endian bytes\<close>

text \<open>\<open>u32::to_be_bytes\<close>: the most significant byte first.\<close>

definition to_be_bytes :: "u32 \<Rightarrow> bytes" where
  "to_be_bytes w =
     [ucast (drop_bit 24 w), ucast (drop_bit 16 w), ucast (drop_bit 8 w), ucast w]"

definition be_value :: "bytes \<Rightarrow> nat" where
  "be_value bs = foldl (\<lambda>acc b. acc * 256 + unat b) 0 bs"

lemma length_to_be_bytes [simp]: "length (to_be_bytes w) = 4"
  by (simp add: to_be_bytes_def)

lemma div_digit: "(n div (m * 256)) * 256 + (n div m) mod 256 = (n div m :: nat)"
  by (simp add: div_mult2_eq)

lemma be_value_to_be_bytes: "be_value (to_be_bytes w) = unat w"
proof -
  have "unat w < 4294967296"
    using unsigned_less [of w, where ?'a = nat] by simp
  then have top: "unat w div 16777216 mod 256 = unat w div 16777216"
    by simp
  have "be_value (to_be_bytes w) =
      ((unat w div 16777216 mod 256 * 256 + unat w div 65536 mod 256) * 256
        + unat w div 256 mod 256) * 256 + unat w mod 256"
    by (simp add: be_value_def to_be_bytes_def unsigned_ucast_eq unat_drop_bit_eq
        drop_bit_eq_div take_bit_eq_mod unat_div_distrib)
  also have "\<dots> = unat w"
    using div_digit [of "unat w" 65536] div_digit [of "unat w" 256] div_digit [of "unat w" 1]
    by (simp add: top)
  finally show ?thesis .
qed

subsection \<open>Words as natural numbers and integers\<close>

lemma unat_and_31 [word_arith]: "unat ((w :: 32 word) AND 31) = unat w mod 32"
proof -
  have "w AND 31 = take_bit 5 w"
    by (simp add: take_bit_eq_mask mask_eq_exp_minus_1)
  then show ?thesis
    by (simp only: unsigned_take_bit_eq) (simp add: take_bit_eq_mod)
qed

lemma and_mask24: "(w :: 64 word) AND 0xFFFFFF = take_bit 24 w"
  by (simp add: take_bit_eq_mask mask_eq_exp_minus_1)

lemma unat_and_mask24 [word_arith]: "unat ((w :: 64 word) AND 0xFFFFFF) = unat w mod 16777216"
  by (simp only: and_mask24 unsigned_take_bit_eq) (simp add: take_bit_eq_mod)

text \<open>A signed word whose top bit is clear reads the same both ways.\<close>

lemma sint_eq_unat [word_arith]: "unat (w :: 32 word) < 2147483648 \<Longrightarrow> sint w = int (unat w)"
  by (simp add: sint_uint uint_nat signed_take_bit_int_eq_self del: of_nat_unat)

lemma sint_eq_unat64 [word_arith]:
  "unat (w :: 64 word) < 9223372036854775808 \<Longrightarrow> sint w = int (unat w)"
  by (simp add: sint_uint uint_nat signed_take_bit_int_eq_self del: of_nat_unat)

lemma unat_eq_sint:
  assumes "0 \<le> sint (w :: 32 word)"
  shows "unat w = nat (sint w)"
proof -
  have "uint w = take_bit 32 (sint w)" by (simp add: uint_sint)
  also have "\<dots> = sint w"
    using assms sint_lt [of w] by (simp add: take_bit_int_eq_self)
  finally show ?thesis by (simp add: unat_eq_nat_uint)
qed

text \<open>Sign extension of a non-negative \<open>i32\<close> to \<open>u64\<close> keeps its value; the low 24 bits of
  any sign extension are the value modulo \<open>2 ^ 24\<close>.\<close>

lemma unat_scast_nonneg [word_arith]:
  assumes "unat (w :: 32 word) < 2147483648"
  shows "unat (scast w :: 64 word) = unat w"
proof -
  have "scast w = (word_of_int (int (unat w)) :: 64 word)"
    using assms by (simp only: scast_eq sint_eq_unat)
  then have "unat (scast w :: 64 word) = unat (of_nat (unat w) :: 64 word)"
    by (simp only: of_int_of_nat_eq)
  also have "\<dots> = unat w"
    using assms by (simp add: unat_of_nat del: of_nat_unat)
  finally show ?thesis .
qed

lemma low24_scast:
  "scast (w :: 32 word) AND (0xFFFFFF :: 64 word) = word_of_int (sint w mod 16777216)"
proof -
  have "take_bit 24 (scast w :: 64 word) = word_of_int (take_bit 24 (sint w))"
    by (simp add: scast_eq take_bit_of_int del: of_int_sint)
  then show ?thesis by (simp add: and_mask24 take_bit_eq_mod)
qed

subsection \<open>Lists\<close>

lemma map_upt_eqI:
  assumes "length xs = n" and "\<And>i. i < n \<Longrightarrow> xs ! i = f (m + i)"
  shows "xs = map f [m..<m + n]"
  using assms by (intro nth_equalityI) auto

lemma map_upt_append:
  "map f [a..<a + m] @ map f [a + m..<a + m + n] = map f [a..<a + (m + n)]"
  by (metis map_append upt_add_eq_append add.assoc le_add1)

lemma nth_take_drop:
  "i < min (length xs - k) n \<Longrightarrow> take n (drop k xs) ! i = xs ! (k + i)"
  by (cases "k \<le> length xs") auto

lemma drop_map_zeros:
  "(\<And>j. n \<le> j \<Longrightarrow> f j = 0) \<Longrightarrow> drop n (map f [0..<n + m]) = replicate m 0"
  by (intro nth_equalityI) auto

end
