(* ===== verification/Region.thy ===== *)
theory Region
  imports Prelude
begin

text \<open>
  The layout half of \<open>hoppermc-anvil/src/lib.rs\<close>: the constants of the region file, the map from a
  chunk slot to its file offset, the map back, and the region header. The locale
  \<open>slot_layout\<close> is the interface the virtual file relies on: a header, then equal slots one
  after the other, each owned by one chunk.
\<close>

subsection \<open>Constants and offsets\<close>

definition SECTOR_BYTES :: u64 where
  "SECTOR_BYTES = 4096"

definition HEADER_BYTES :: u64 where
  "HEADER_BYTES = 8192"

definition SECTORS_PER_CHUNK :: u64 where
  "SECTORS_PER_CHUNK = 64"

lemmas region_consts = SECTOR_BYTES_def HEADER_BYTES_def SECTORS_PER_CHUNK_def

definition get_chunk_file_offset :: "i32 \<Rightarrow> i32 \<Rightarrow> u64" where
  "get_chunk_file_offset rel_x rel_z =
     (let index = (rel_x AND 31) + (rel_z AND 31) * 32
      in HEADER_BYTES + (scast index * SECTORS_PER_CHUNK * SECTOR_BYTES))"

definition get_chunk_coords_from_offset :: "u64 \<Rightarrow> (i32 \<times> i32) option" where
  "get_chunk_coords_from_offset offset =
     (if offset < HEADER_BYTES then None
      else
        let data_offset = offset - HEADER_BYTES;
            slot_size = SECTORS_PER_CHUNK * SECTOR_BYTES;
            index = data_offset div slot_size
        in if index \<ge> 1024 then None
           else let rel_x = ucast (index mod 32);
                    rel_z = ucast (index div 32)
                in Some (rel_x, rel_z))"

text \<open>The index of a slot, the size of one, and the length of the whole file, as numbers.\<close>

definition slot_index :: "i32 \<Rightarrow> i32 \<Rightarrow> nat" where
  "slot_index rel_x rel_z = unat rel_x mod 32 + (unat rel_z mod 32) * 32"

abbreviation slot_bytes :: nat where "slot_bytes \<equiv> 262144"
abbreviation header_len :: nat where "header_len \<equiv> 8192"
abbreviation file_len :: nat where "file_len \<equiv> 268443648"

lemma slot_index_less: "slot_index rel_x rel_z < 1024"
proof -
  have "unat rel_x mod 32 < 32" "unat rel_z mod 32 < 32" by simp_all
  then show ?thesis unfolding slot_index_def by linarith
qed

lemma unat_get_chunk_file_offset [layout]:
  "unat (get_chunk_file_offset rel_x rel_z) = header_len + slot_index rel_x rel_z * slot_bytes"
proof -
  let ?i = "(rel_x AND 31) + (rel_z AND 31) * 32"
  have "unat ?i = slot_index rel_x rel_z"
    using slot_index_less [of rel_x rel_z]
    by (simp add: unat_word_ariths unat_and_31 slot_index_def)
  with slot_index_less [of rel_x rel_z]
  have "unat (scast ?i :: u64) = slot_index rel_x rel_z" and "slot_index rel_x rel_z < 1024"
    by (simp_all add: unat_scast_nonneg)
  then show ?thesis
    by (simp add: get_chunk_file_offset_def Let_def region_consts unat_word_ariths)
qed

text \<open>A chunk position relative to its region: both coordinates in \<open>0..31\<close>.\<close>

definition rel_pos :: "i32 \<times> i32 \<Rightarrow> bool" where
  "rel_pos p \<longleftrightarrow> unat (fst p) < 32 \<and> unat (snd p) < 32"

lemma get_chunk_coords_from_offset_alt:
  "get_chunk_coords_from_offset off =
     (if unat off < header_len \<or> file_len \<le> unat off then None
      else let i = (unat off - header_len) div slot_bytes
           in Some (of_nat (i mod 32), of_nat (i div 32)))"
proof (cases "unat off < header_len")
  case True
  then show ?thesis
    by (simp add: get_chunk_coords_from_offset_def region_consts word_less_nat_alt)
next
  case False
  define d where "d = off - 8192"
  have d: "unat d = unat off - header_len"
    using False by (simp add: d_def unat_sub word_le_nat_alt)
  have i: "unat (d div 262144) = (unat off - header_len) div slot_bytes"
    by (simp add: d unat_div_distrib)
  have x: "unat (d div 262144 mod 32) = (unat off - header_len) div slot_bytes mod 32"
    and z: "unat (d div 262144 div 32) = (unat off - header_len) div slot_bytes div 32"
    by (simp_all add: unat_mod_distrib unat_div_distrib d)
  have ge: "\<not> off < 8192" using False by (simp add: word_less_nat_alt)
  have far: "1024 \<le> d div 262144 \<longleftrightarrow> file_len \<le> unat off"
    using False by (simp add: word_le_nat_alt i) linarith
  have ux: "ucast w = (of_nat (unat w) :: 32 word)" for w :: u64
    by (simp add: of_nat_unat)
  show ?thesis
    using False ge far x z
    by (simp add: get_chunk_coords_from_offset_def region_consts Let_def flip: d_def)
       (simp add: ux)
qed

subsection \<open>The layout as an interface\<close>

text \<open>
  What the reader of a slotted file needs: \<open>off\<close> gives the first byte of a chunk's slot, \<open>at\<close>
  the owner of a position, \<open>base\<close> the length of the header.
\<close>

locale slot_layout =
  fixes base slot count :: nat
    and valid :: "'c \<Rightarrow> bool"
    and off :: "'c \<Rightarrow> nat"
    and at :: "nat \<Rightarrow> 'c option"
  assumes at_SomeD: "at p = Some c \<Longrightarrow> valid c \<and> off c \<le> p \<and> p < off c + slot"
    and at_off: "valid c \<Longrightarrow> d < slot \<Longrightarrow> at (off c + d) = Some c"
    and at_None: "at p = None \<longleftrightarrow> p < base \<or> base + count * slot \<le> p"
    and slot_pos: "0 < slot"
begin

lemma at_Some_iff: "valid c \<Longrightarrow> at p = Some c \<longleftrightarrow> off c \<le> p \<and> p < off c + slot"
  using at_SomeD at_off by (metis add_diff_inverse_nat add_less_cancel_left not_less)

lemma off_bounds: "valid c \<Longrightarrow> base \<le> off c \<and> off c + slot \<le> base + count * slot"
proof -
  assume c: "valid c"
  have "at (off c + 0) = Some c" and "at (off c + (slot - 1)) = Some c"
    using at_off [OF c, of 0] at_off [OF c, of "slot - 1"] slot_pos by simp_all
  then show ?thesis using slot_pos at_None [of "off c"] at_None [of "off c + (slot - 1)"] by auto
qed

lemma slots_disjoint:
  assumes "valid c" "valid c'" "c \<noteq> c'"
  shows "{off c..<off c + slot} \<inter> {off c'..<off c' + slot} = {}"
proof (rule ccontr)
  assume "\<not> ?thesis"
  then obtain p where "p \<in> {off c..<off c + slot}" "p \<in> {off c'..<off c' + slot}"
    by blast
  then have "at p = Some c" "at p = Some c'"
    using assms by (simp_all add: at_Some_iff)
  with assms show False by simp
qed

lemma off_inj: "valid c \<Longrightarrow> valid c' \<Longrightarrow> off c = off c' \<Longrightarrow> c = c'"
  using at_off slot_pos by (metis option.inject)

text \<open>A position after the header and before the end of the file has an owner, and a step
  forward from it that stays below the slot's end keeps the owner.\<close>

lemma at_step: "at p = Some c \<Longrightarrow> p + d < off c + slot \<Longrightarrow> at (p + d) = Some c"
  using at_SomeD at_Some_iff by (meson le_add1 le_trans)

end

lemma rel_pos_slot_index:
  "rel_pos (x, z) \<Longrightarrow> (of_nat (slot_index x z mod 32) :: i32, of_nat (slot_index x z div 32) :: i32) = (x, z)"
  by (simp add: rel_pos_def slot_index_def)

interpretation region: slot_layout header_len slot_bytes 1024 rel_pos
  "\<lambda>(x, z). unat (get_chunk_file_offset x z)"
  "\<lambda>p. if p < 2 ^ 64 then get_chunk_coords_from_offset (of_nat p) else None"
proof
  fix p :: nat and c :: "i32 \<times> i32"
  assume "(if p < 2 ^ 64 then get_chunk_coords_from_offset (of_nat p) else None) = Some c"
  then have p: "header_len \<le> p" "p < file_len"
    and c: "c = (of_nat ((p - header_len) div slot_bytes mod 32), of_nat ((p - header_len) div slot_bytes div 32))"
    by (auto simp: get_chunk_coords_from_offset_alt unat_of_nat Let_def split: if_splits)
  define i where "i = (p - header_len) div slot_bytes"
  have i: "i < 1024" "header_len + i * slot_bytes \<le> p" "p < header_len + Suc i * slot_bytes"
    using p div_times_less_eq_dividend [of "p - header_len" slot_bytes]
      dividend_less_div_times [of slot_bytes "p - header_len"]
    by (auto simp: i_def less_mult_imp_div_less)
  have "unat (of_nat (i mod 32) :: i32) = i mod 32" "unat (of_nat (i div 32) :: i32) = i div 32"
    using i by (simp_all add: unat_of_nat)
  moreover from this have "slot_index (fst c) (snd c) = i"
    using i by (simp add: c slot_index_def flip: i_def)
  ultimately show "rel_pos c \<and> (case c of (x, z) \<Rightarrow> unat (get_chunk_file_offset x z)) \<le> p \<and>
      p < (case c of (x, z) \<Rightarrow> unat (get_chunk_file_offset x z)) + slot_bytes"
    using p i by (auto simp: c rel_pos_def layout split: prod.splits simp flip: i_def)
next
  fix c :: "i32 \<times> i32" and d :: nat
  assume c: "rel_pos c" and d: "d < slot_bytes"
  obtain x z where xz: "c = (x, z)" by (cases c)
  have "slot_index x z < 1024" by (rule slot_index_less)
  then show "(if (case c of (x, z) \<Rightarrow> unat (get_chunk_file_offset x z)) + d < 2 ^ 64
       then get_chunk_coords_from_offset (of_nat ((case c of (x, z) \<Rightarrow> unat (get_chunk_file_offset x z)) + d))
       else None) = Some c"
    using c d rel_pos_slot_index [of x z]
    by (simp add: xz layout get_chunk_coords_from_offset_alt unat_of_nat Let_def del: of_nat_add)
next
  fix p :: nat
  show "((if p < 2 ^ 64 then get_chunk_coords_from_offset (of_nat p) else None) = None) =
      (p < header_len \<or> header_len + 1024 * slot_bytes \<le> p)"
    by (auto simp: get_chunk_coords_from_offset_alt unat_of_nat Let_def)
qed simp

text \<open>The laws over the code's \<open>u64\<close> offsets.\<close>

lemma region_at: "(if unat off < 2 ^ 64 then get_chunk_coords_from_offset (of_nat (unat off)) else None) =
    get_chunk_coords_from_offset off"
  using unsigned_less [of off, where ?'a = nat] by simp

lemma coords_SomeD:
  "get_chunk_coords_from_offset off = Some (x, z) \<Longrightarrow>
     rel_pos (x, z) \<and> unat (get_chunk_file_offset x z) \<le> unat off \<and>
     unat off < unat (get_chunk_file_offset x z) + slot_bytes"
  using region.at_SomeD [of "unat off" "(x, z)", unfolded region_at] by simp

lemma coords_Some_iff:
  "rel_pos (x, z) \<Longrightarrow> get_chunk_coords_from_offset off = Some (x, z) \<longleftrightarrow>
     unat (get_chunk_file_offset x z) \<le> unat off \<and>
     unat off < unat (get_chunk_file_offset x z) + slot_bytes"
  using region.at_Some_iff [of "(x, z)" "unat off", unfolded region_at] by simp

lemma coords_None_iff:
  "get_chunk_coords_from_offset off = None \<longleftrightarrow> unat off < header_len \<or> file_len \<le> unat off"
  using region.at_None [of "unat off", unfolded region_at] by simp

lemma slot_in_file: "header_len \<le> unat (get_chunk_file_offset x z) \<and>
    unat (get_chunk_file_offset x z) + slot_bytes \<le> file_len"
  using slot_index_less [of x z] by (simp add: layout)

subsection \<open>The region header\<close>

text \<open>One turn of the loop of \<open>generate_header\<close>: the four bytes of entry \<open>i\<close>. The loop variable
  is an \<open>i32\<close> below 1024, for which the signed \<open>%\<close> and \<open>/\<close> of the source are \<open>mod\<close> and \<open>div\<close>.\<close>

definition header_entry :: "bytes \<Rightarrow> nat \<Rightarrow> bytes" where
  "header_entry header i =
     (let rel_x = (of_nat i :: i32) mod 32;
          rel_z = (of_nat i :: i32) div 32;
          chunk_offset = get_chunk_file_offset rel_x rel_z;
          sector_id = (ucast (chunk_offset div SECTOR_BYTES) :: u32);
          sector_count = (ucast SECTORS_PER_CHUNK :: u8);
          loc_idx = i * 4
      in header[loc_idx := ucast (drop_bit 16 sector_id AND 0xFF),
                loc_idx + 1 := ucast (drop_bit 8 sector_id AND 0xFF),
                loc_idx + 2 := ucast (sector_id AND 0xFF),
                loc_idx + 3 := sector_count])"

definition generate_header :: bytes where
  "generate_header = foldl header_entry (zeros (unat HEADER_BYTES)) [0..<1024]"

text \<open>The sector a slot starts at, and the bytes the loop leaves behind.\<close>

definition slot_sector :: "nat \<Rightarrow> nat" where
  "slot_sector i = 2 + 64 * i"

definition header_byte :: "nat \<Rightarrow> u8" where
  "header_byte j =
     (if j < 4096 then
        (let s = slot_sector (j div 4) in
         [of_nat (s div 65536), of_nat (s div 256), of_nat s, 64] ! (j mod 4))
      else 0)"

lemma sector_of_entry:
  assumes "i < 1024"
  shows "unat (ucast (get_chunk_file_offset ((of_nat i :: i32) mod 32) ((of_nat i :: i32) div 32)
           div SECTOR_BYTES) :: u32) = slot_sector i"
proof -
  have "unat ((of_nat i :: i32) mod 32) = i mod 32" "unat ((of_nat i :: i32) div 32) = i div 32"
    using assms by (simp_all add: unat_mod_distrib unat_div_distrib unat_of_nat)
  then have "slot_index ((of_nat i :: i32) mod 32) ((of_nat i :: i32) div 32) = i"
    using assms by (simp add: slot_index_def)
  then have "unat (get_chunk_file_offset ((of_nat i :: i32) mod 32) ((of_nat i :: i32) div 32)
           div SECTOR_BYTES) = slot_sector i"
    by (simp add: unat_div_distrib layout region_consts slot_sector_def)
  then show ?thesis
    using assms by (simp add: unsigned_ucast_eq take_bit_eq_mod slot_sector_def)
qed

lemma low_byte: "unat (w :: u32) = n \<Longrightarrow> ucast (drop_bit k w AND 0xFF) = (of_nat (n div 2 ^ k) :: u8)"
proof -
  assume n: "unat w = n"
  have "drop_bit k w AND 0xFF = take_bit 8 (drop_bit k w)"
    by (simp add: take_bit_eq_mask mask_eq_exp_minus_1)
  then have "unat (ucast (drop_bit k w AND 0xFF) :: u8) = n div 2 ^ k mod 256"
    by (simp only: unsigned_ucast_eq unsigned_take_bit_eq unat_drop_bit_eq n)
       (simp add: take_bit_eq_mod drop_bit_eq_div)
  also have "\<dots> = unat (of_nat (n div 2 ^ k) :: u8)"
    by (simp add: unat_of_nat)
  finally show ?thesis by (simp only: word_unat_eq_iff)
qed

lemma header_entry_alt:
  assumes "i < 1024"
  shows "header_entry h i =
     h[4 * i := header_byte (4 * i), 4 * i + 1 := header_byte (4 * i + 1),
       4 * i + 2 := header_byte (4 * i + 2), 4 * i + 3 := header_byte (4 * i + 3)]"
proof -
  have div4: "(4 * i + k) div 4 = i" "(4 * i + k) mod 4 = k" if "k < 4" for k
    using that by simp_all
  define s where "s = (ucast (get_chunk_file_offset ((of_nat i :: i32) mod 32)
     ((of_nat i :: i32) div 32) div SECTOR_BYTES) :: u32)"
  have s: "unat s = slot_sector i"
    unfolding s_def by (rule sector_of_entry [OF assms])
  show ?thesis
    using assms div4 [of 0] div4 [of 1] div4 [of 2] div4 [of 3]
      low_byte [OF s, of 0] low_byte [OF s, of 8] low_byte [OF s, of 16]
    by (simp add: header_entry_def Let_def SECTORS_PER_CHUNK_def header_byte_def mult.commute
        flip: s_def)
qed

lemma header_loop:
  "n \<le> 1024 \<Longrightarrow> foldl header_entry (zeros header_len) [0..<n] =
     map (\<lambda>j. if j < 4 * n then header_byte j else 0) [0..<header_len]"
proof (induction n)
  case 0
  show ?case by (simp add: map_replicate_const)
next
  case (Suc n)
  then show ?case
    by (intro nth_equalityI) (auto simp: header_entry_alt nth_list_update)
qed

lemma generate_header_bytes: "generate_header = map header_byte [0..<header_len]"
  unfolding generate_header_def
  by (simp add: header_loop region_consts header_byte_def cong: map_cong)

lemma length_generate_header [simp]: "length generate_header = header_len"
  by (simp add: generate_header_bytes)

lemma generate_header_nth: "j < header_len \<Longrightarrow> generate_header ! j = header_byte j"
  by (simp add: generate_header_bytes)

subsection \<open>Properties\<close>

text \<open>C18: the offset map and its inverse agree on every one of the 2^64 offsets: an offset is
  resolved to a chunk exactly when it lies in the 256 KiB slot of that chunk, and to none exactly
  when it lies in the 8 KiB header or past the 1024 slots.\<close>

theorem coords_characterised:
  "(get_chunk_coords_from_offset off = Some (x, z) \<longleftrightarrow>
      unat x < 32 \<and> unat z < 32 \<and>
      unat (get_chunk_file_offset x z) \<le> unat off \<and>
      unat off < unat (get_chunk_file_offset x z) + 262144) \<and>
   (get_chunk_coords_from_offset off = None \<longleftrightarrow>
      unat off < 8192 \<or> 8192 + 1024 * 262144 \<le> unat off)"
proof -
  have rel: "rel_pos (x, z) \<longleftrightarrow> unat x < 32 \<and> unat z < 32"
    by (simp add: rel_pos_def)
  have none: "get_chunk_coords_from_offset off = None \<longleftrightarrow>
      unat off < 8192 \<or> 8192 + 1024 * 262144 \<le> unat off"
    by (simp add: coords_None_iff)
  show ?thesis
    using coords_SomeD [of off x z] coords_Some_iff [of x z off] none unfolding rel by blast
qed

text \<open>The slots of different chunks of a region do not overlap: two chunks own a common
  position only if they are the same chunk modulo 32, and the header belongs to no slot.\<close>

lemma slots_do_not_overlap:
  assumes "unat (get_chunk_file_offset x z) \<le> p" "p < unat (get_chunk_file_offset x z) + 262144"
    and "unat (get_chunk_file_offset x' z') \<le> p" "p < unat (get_chunk_file_offset x' z') + 262144"
  shows "x AND 31 = x' AND 31 \<and> z AND 31 = z' AND 31 \<and> 8192 \<le> p"
proof -
  let ?i = "slot_index x z" and ?j = "slot_index x' z'"
  have p: "8192 + ?i * 262144 \<le> p" "p < 8192 + Suc ?i * 262144"
    "8192 + ?j * 262144 \<le> p" "p < 8192 + Suc ?j * 262144"
    using assms by (simp_all add: layout)
  have "?i = ?j"
  proof (rule ccontr)
    assume "?i \<noteq> ?j"
    then have "Suc ?i \<le> ?j \<or> Suc ?j \<le> ?i" by linarith
    then have "Suc ?i * 262144 \<le> ?j * 262144 \<or> Suc ?j * 262144 \<le> ?i * 262144"
      using mult_le_mono1 by blast
    then show False using p by linarith
  qed
  then have "?i mod 32 = ?j mod 32" "?i div 32 = ?j div 32" by simp_all
  then have "unat x mod 32 = unat x' mod 32" "unat z mod 32 = unat z' mod 32"
    by (simp_all add: slot_index_def)
  then have eq: "unat (x AND 31) = unat (x' AND 31)" "unat (z AND 31) = unat (z' AND 31)"
    by (simp_all only: unat_and_31)
  have "8192 \<le> p" using p(1) by linarith
  with eq [THEN word_unat_eq_iff [THEN iffD2]] show ?thesis by blast
qed

text \<open>C19: a reader that follows the header finds every chunk: entry \<open>x + 32 * z\<close> names the sector
  at which the chunk's slot starts and its length of 64 sectors, and every position it thereby
  covers is resolved back to that chunk.\<close>

theorem header_leads_to_slot:
  assumes "x < 32" and "z < 32" and "d < 64 * 4096"
  shows "let e = take 4 (drop (4 * (x + 32 * z)) generate_header);
             start = be_value (take 3 e) * 4096
         in start = unat (get_chunk_file_offset (of_nat x) (of_nat z)) \<and>
            e ! 3 = 64 \<and>
            get_chunk_coords_from_offset (of_nat (start + d)) = Some (of_nat x, of_nat z)"
proof -
  define i where "i = x + 32 * z"
  have i: "i < 1024" "i mod 32 = x" "i div 32 = z" using assms by (simp_all add: i_def)
  have rel: "rel_pos (of_nat x, of_nat z)"
    using assms by (simp add: rel_pos_def unat_of_nat)
  have si: "slot_index (of_nat x) (of_nat z) = i"
    using assms by (simp add: slot_index_def unat_of_nat i_def)
  have e: "take 4 (drop (4 * i) generate_header) =
      [of_nat (slot_sector i div 65536), of_nat (slot_sector i div 256), of_nat (slot_sector i), 64]"
    (is "?e = ?bs")
  proof (rule nth_equalityI)
    show "length ?e = length ?bs" using i by simp
    fix k
    assume "k < length ?e"
    then have k: "k < 4" by simp
    then have "?e ! k = header_byte (4 * i + k)"
      using i by (simp add: generate_header_nth)
    also have "\<dots> = ?bs ! k"
      using k i by (simp add: header_byte_def Let_def)
    finally show "?e ! k = ?bs ! k" .
  qed
  have s: "slot_sector i < 65538" using i by (simp add: slot_sector_def)
  have "be_value (take 3 ?bs) = slot_sector i"
    using s div_digit [of "slot_sector i" 256] div_digit [of "slot_sector i" 1]
    by (simp add: be_value_def unat_of_nat del: of_nat_unat)
  then have start: "be_value (take 3 ?e) * 4096 = header_len + i * slot_bytes"
    by (simp add: e slot_sector_def)
  have "get_chunk_coords_from_offset (of_nat (header_len + i * slot_bytes + d)) = Some (of_nat x, of_nat z)"
    using region.at_off [OF rel, of d] assms(3) i by (simp add: layout si unat_of_nat split: if_splits)
  then show ?thesis
    using start by (simp add: Let_def layout si e del: of_nat_add flip: i_def)
qed

theorem header_leads_to_slot_witness:
  "be_value (take 3 (take 4 (drop (4 * (3 + 32 * 2)) generate_header))) * 4096 =
     unat (get_chunk_file_offset (of_nat 3) (of_nat 2))"
proof -
  have "3 < (32 :: nat)" "2 < (32 :: nat)" "5 < (64 * 4096 :: nat)" by simp_all
  from header_leads_to_slot [OF this] show ?thesis unfolding Let_def by blast
qed

text \<open>The header is 8 KiB long and its second half, the timestamps, is zero.\<close>

lemma header_shape:
  "length generate_header = 8192 \<and> drop 4096 generate_header = replicate 4096 0"
proof -
  have "drop 4096 generate_header = drop 4096 (map header_byte [0..<4096 + 4096])"
    by (simp only: generate_header_bytes) simp
  also have "\<dots> = zeros 4096"
    by (rule drop_map_zeros) (simp only: header_byte_def, simp)
  finally show ?thesis by (simp only: length_generate_header)
qed

end
