(* ===== verification/Codec.thy ===== *)
theory Codec
  imports Region
begin

text \<open>
  The codec half of \<open>hoppermc-anvil/src/lib.rs\<close>: a chunk blob is a big-endian length, a
  compression type and the compressed data. The compressors (flate2 and lz4-java-wrc) are not in
  the repository: they are the fields of \<open>codec\<close>, and what the proofs need of zlib is named in
  \<open>zlib_inverse\<close> (decoding undoes encoding) and \<open>zlib_total\<close> (encoding into a \<open>Vec\<close> never
  fails).
\<close>

text \<open>Where \<open>verify_chunk_coords\<close> looked for the coordinates, and every error of this crate.\<close>

datatype coord_site = Root | Level

datatype anvil_error =
    Blob_too_short
  | Unknown_compression u8
  | Decode_failed
  | Nbt_unparseable
  | Root_not_compound
  | No_coords
  | X_not_int coord_site
  | Z_not_int coord_site
  | Coords_mismatch coord_site chunk_pos chunk_pos

record codec =
  zlib_write_all :: "bytes \<Rightarrow> bool"
  zlib_finish :: "bytes \<Rightarrow> bytes option"
  zlib_decode :: "bytes \<Rightarrow> bytes option"
  gzip_decode :: "bytes \<Rightarrow> bytes option"
  lz4_decode :: "bytes \<Rightarrow> bytes option"

definition GZIP :: u8 where "GZIP = 1"
definition ZLIB :: u8 where "ZLIB = 2"
definition NONE :: u8 where "NONE = 3"
definition LZ4 :: u8 where "LZ4 = 4"

lemmas compression_consts = GZIP_def ZLIB_def NONE_def LZ4_def

definition compress_and_wrap_chunk :: "codec \<Rightarrow> bytes \<Rightarrow> bytes option" where
  "compress_and_wrap_chunk cd nbt_data =
     (if zlib_write_all cd nbt_data then
        case zlib_finish cd nbt_data of
          Some compressed \<Rightarrow>
            let total_len = (of_nat (length compressed + 1) :: u32)
            in Some (to_be_bytes total_len @ [2] @ compressed)
        | None \<Rightarrow> None
      else None)"

text \<open>The \<open>?\<close> of the source: a decoder's failure becomes an error of the function.\<close>

definition decoded :: "bytes option \<Rightarrow> anvil_error + bytes" where
  "decoded r = (case r of None \<Rightarrow> Inl Decode_failed | Some d \<Rightarrow> Inr d)"

definition unwrap_and_decompress_chunk :: "codec \<Rightarrow> bytes \<Rightarrow> anvil_error + bytes" where
  "unwrap_and_decompress_chunk cd chunk_blob =
     (if length chunk_blob < 5 then Inl Blob_too_short
      else
        let compression_type = chunk_blob ! 4;
            compressed_data = drop 5 chunk_blob
        in if compression_type = ZLIB then decoded (zlib_decode cd compressed_data)
           else if compression_type = GZIP then decoded (gzip_decode cd compressed_data)
           else if compression_type = NONE then Inr compressed_data
           else if compression_type = LZ4 then decoded (lz4_decode cd compressed_data)
           else Inl (Unknown_compression compression_type))"

subsection \<open>What is relied on of zlib\<close>

definition zlib_inverse :: "codec \<Rightarrow> bool" where
  "zlib_inverse cd \<longleftrightarrow> (\<forall>d z. zlib_finish cd d = Some z \<longrightarrow> zlib_decode cd z = Some d)"

definition zlib_total :: "codec \<Rightarrow> bool" where
  "zlib_total cd \<longleftrightarrow> (\<forall>d. zlib_write_all cd d \<and> zlib_finish cd d \<noteq> None)"

lemma compress_SomeE:
  assumes "compress_and_wrap_chunk cd d = Some b"
  obtains z where "zlib_finish cd d = Some z"
    and "b = to_be_bytes (of_nat (length z + 1)) @ [2] @ z"
  using assms by (auto simp: compress_and_wrap_chunk_def Let_def split: if_splits option.splits)

lemma compress_total: "zlib_total cd \<Longrightarrow> \<exists>b. compress_and_wrap_chunk cd d = Some b"
  by (auto simp: zlib_total_def compress_and_wrap_chunk_def Let_def split: option.splits)

lemma unwrap_compressed:
  assumes "zlib_inverse cd" and "compress_and_wrap_chunk cd d = Some b"
  shows "unwrap_and_decompress_chunk cd b = Inr d"
  using assms
  by (auto simp: zlib_inverse_def unwrap_and_decompress_chunk_def compression_consts decoded_def
      nth_append elim!: compress_SomeE)

lemma compress_nonempty: "compress_and_wrap_chunk cd d = Some b \<Longrightarrow> 5 \<le> length b"
  by (auto elim!: compress_SomeE)

text \<open>A codec that stores the data as it is, for the witnesses.\<close>

definition stored_codec :: codec where
  "stored_codec = \<lparr>zlib_write_all = \<lambda>_. True, zlib_finish = Some, zlib_decode = Some,
     gzip_decode = Some, lz4_decode = Some\<rparr>"

lemma stored_codec_laws: "zlib_inverse stored_codec" "zlib_total stored_codec"
  by (simp_all add: zlib_inverse_def zlib_total_def stored_codec_def)

subsection \<open>Properties\<close>

text \<open>C20: decompressing what \<open>compress_and_wrap_chunk\<close> produced gives back the chunk's bytes,
  whenever zlib's decoder undoes its encoder.\<close>

theorem unwrap_compress:
  assumes "zlib_inverse cd" and "compress_and_wrap_chunk cd d = Some b"
  shows "unwrap_and_decompress_chunk cd b = Inr d"
  by (rule unwrap_compressed [OF assms])

theorem unwrap_compress_witness:
  "compress_and_wrap_chunk stored_codec [7, 9] = Some [0, 0, 0, 3, 2, 7, 9] \<and>
   unwrap_and_decompress_chunk stored_codec [0, 0, 0, 3, 2, 7, 9] = Inr [7, 9]"
proof -
  have c: "compress_and_wrap_chunk stored_codec [7, 9] = Some [0, 0, 0, 3, 2, 7, 9]"
    by (simp add: compress_and_wrap_chunk_def stored_codec_def to_be_bytes_def)
  show ?thesis using c unwrap_compress [OF stored_codec_laws(1) c] by blast
qed

text \<open>The blob is framed as the Anvil format wants it: four big-endian bytes that count
  everything after them, then type 2 (zlib), then the compressed bytes; for data short of 4 GiB
  the count is exact.\<close>

lemma blob_framing:
  assumes "compress_and_wrap_chunk cd d = Some b" and "length b < 2 ^ 32"
  shows "be_value (take 4 b) = length b - 4 \<and> b ! 4 = ZLIB \<and> zlib_finish cd d = Some (drop 5 b)"
  using assms
  by (auto simp: be_value_to_be_bytes nth_append unat_of_nat compression_consts
      simp del: of_nat_add of_nat_Suc elim!: compress_SomeE)

end
