(* ===== verification/Nbt.thy ===== *)
theory Nbt
  imports Codec "HOL-Library.Finite_Map"
begin

text \<open>
  NBT values and the coordinate checks. The datatype follows the constructors of
  \<open>fastnbt::Value\<close> that \<open>hoppermc-storage/src/nbt_json.rs\<close> matches one by one; a compound, a
  \<open>HashMap\<close>, is a finite map. Floats are their IEEE bit patterns. The parser, the serialiser and
  \<open>Value::as_i64\<close> belong to fastnbt and are the fields of \<open>nbt_lib\<close>; \<open>nbt_lib_ok\<close> states what
  is relied on.

  \<open>verify_chunk_coords\<close> is from \<open>hoppermc-anvil/src/lib.rs\<close>; \<open>real_coords\<close> is the second
  extraction of the same coordinates, in the write path of \<open>hoppermc-fs/src/virtual_file.rs\<close>.
\<close>

type_synonym f32 = "32 word"
type_synonym f64 = "64 word"

datatype nbt =
    VByte i8
  | VShort i16
  | VInt i32
  | VLong i64
  | VFloat f32
  | VDouble f64
  | VString string
  | VByteArray "i8 list"
  | VIntArray "i32 list"
  | VLongArray "i64 list"
  | VList "nbt list"
  | VCompound "(string, nbt) fmap"

record nbt_lib =
  nbt_from_bytes :: "bytes \<Rightarrow> nbt option"
  nbt_to_bytes :: "nbt \<Rightarrow> bytes option"
  nbt_as_i64 :: "nbt \<Rightarrow> i64 option"

subsection \<open>The check of a chunk's own coordinates\<close>

definition check_tags ::
    "nbt_lib \<Rightarrow> coord_site \<Rightarrow> nbt \<Rightarrow> nbt \<Rightarrow> i32 \<Rightarrow> i32 \<Rightarrow> anvil_error + unit" where
  "check_tags L site x_tag z_tag expected_x expected_z =
     (case nbt_as_i64 L x_tag of
        None \<Rightarrow> Inl (X_not_int site)
      | Some xi \<Rightarrow>
          (case nbt_as_i64 L z_tag of
             None \<Rightarrow> Inl (Z_not_int site)
           | Some zi \<Rightarrow>
               let x = (ucast xi :: i32); z = (ucast zi :: i32)
               in if x \<noteq> expected_x \<or> z \<noteq> expected_z
                  then Inl (Coords_mismatch site (expected_x, expected_z) (x, z))
                  else Inr ()))"

definition verify_chunk_coords :: "nbt_lib \<Rightarrow> bytes \<Rightarrow> i32 \<Rightarrow> i32 \<Rightarrow> anvil_error + unit" where
  "verify_chunk_coords L nbt_data expected_x expected_z =
     (case nbt_from_bytes L nbt_data of
        None \<Rightarrow> Inl Nbt_unparseable
      | Some (VCompound root) \<Rightarrow>
          (case (fmlookup root ''xPos'', fmlookup root ''zPos'') of
             (Some x_tag, Some z_tag) \<Rightarrow> check_tags L Root x_tag z_tag expected_x expected_z
           | _ \<Rightarrow>
               (case fmlookup root ''Level'' of
                  Some (VCompound level) \<Rightarrow>
                    (case (fmlookup level ''xPos'', fmlookup level ''zPos'') of
                       (Some x_tag, Some z_tag) \<Rightarrow> check_tags L Level x_tag z_tag expected_x expected_z
                     | _ \<Rightarrow> Inl No_coords)
                | _ \<Rightarrow> Inl No_coords))
      | Some _ \<Rightarrow> Inl Root_not_compound)"

subsection \<open>The coordinates the write path trusts\<close>

text \<open>The pair of optional coordinates of the correction branch of \<open>write_at\<close>: from the root,
  else from the \<open>Level\<close> compound, else none.\<close>

definition coord_pair :: "nbt_lib \<Rightarrow> (string, nbt) fmap \<Rightarrow> i64 option \<times> i64 option" where
  "coord_pair L root =
     (case (fmlookup root ''xPos'', fmlookup root ''zPos'') of
        (Some x, Some z) \<Rightarrow> (nbt_as_i64 L x, nbt_as_i64 L z)
      | _ \<Rightarrow>
          (case fmlookup root ''Level'' of
             Some (VCompound level) \<Rightarrow>
               (Option.bind (fmlookup level ''xPos'') (nbt_as_i64 L),
                Option.bind (fmlookup level ''zPos'') (nbt_as_i64 L))
           | _ \<Rightarrow> (None, None)))"

definition real_coords :: "nbt_lib \<Rightarrow> bytes \<Rightarrow> i32 \<Rightarrow> i32 \<Rightarrow> chunk_pos" where
  "real_coords L raw_nbt abs_x abs_z =
     (case nbt_from_bytes L raw_nbt of
        Some (VCompound root) \<Rightarrow>
          (case coord_pair L root of
             (Some rx, Some rz) \<Rightarrow> (ucast rx, ucast rz)
           | _ \<Rightarrow> (abs_x, abs_z))
      | _ \<Rightarrow> (abs_x, abs_z))"

text \<open>The coordinates a chunk declares, if it declares any: what both routines look for.\<close>

definition declared_coords :: "nbt_lib \<Rightarrow> bytes \<Rightarrow> chunk_pos option" where
  "declared_coords L raw_nbt =
     (case nbt_from_bytes L raw_nbt of
        Some (VCompound root) \<Rightarrow>
          (case coord_pair L root of
             (Some rx, Some rz) \<Rightarrow> Some (ucast rx, ucast rz)
           | _ \<Rightarrow> None)
      | _ \<Rightarrow> None)"

lemma check_tags_Inr:
  "check_tags L site xt zt x z = Inr u \<longleftrightarrow>
     (\<exists>xi zi. nbt_as_i64 L xt = Some xi \<and> nbt_as_i64 L zt = Some zi \<and> ucast xi = x \<and> ucast zi = z)"
  by (auto simp: check_tags_def Let_def split: option.splits)

lemma real_coords_declared:
  "real_coords L raw x z = (case declared_coords L raw of None \<Rightarrow> (x, z) | Some p \<Rightarrow> p)"
  by (auto simp: real_coords_def declared_coords_def split: option.splits nbt.splits prod.splits)

lemma verify_chunk_coords_declared:
  "verify_chunk_coords L raw x z = Inr u \<longleftrightarrow> declared_coords L raw = Some (x, z)"
  by (auto simp: verify_chunk_coords_def declared_coords_def coord_pair_def check_tags_Inr
      split: option.splits nbt.splits prod.splits)

subsection \<open>What is relied on of fastnbt\<close>

text \<open>\<open>as_i64\<close> of an integer tag is its value; the parser reads back what the serialiser wrote.\<close>

definition nbt_lib_ok :: "nbt_lib \<Rightarrow> bool" where
  "nbt_lib_ok L \<longleftrightarrow>
     (\<forall>b. nbt_as_i64 L (VByte b) = Some (scast b)) \<and>
     (\<forall>s. nbt_as_i64 L (VShort s) = Some (scast s)) \<and>
     (\<forall>i. nbt_as_i64 L (VInt i) = Some (scast i)) \<and>
     (\<forall>l. nbt_as_i64 L (VLong l) = Some l) \<and>
     (\<forall>v d. nbt_to_bytes L v = Some d \<longrightarrow> nbt_from_bytes L d = Some v)"

text \<open>A format of three bytes for the witnesses: a kind (0 for \<open>Int\<close> tags, 1 for \<open>Long\<close> tags)
  and the two coordinates.\<close>

definition coords_nbt :: "(i8 \<Rightarrow> nbt) \<Rightarrow> i8 \<Rightarrow> i8 \<Rightarrow> nbt" where
  "coords_nbt mk x z = VCompound (fmupd ''xPos'' (mk x) (fmupd ''zPos'' (mk z) fmempty))"

fun tiny_from_bytes :: "bytes \<Rightarrow> nbt option" where
  "tiny_from_bytes [k, x, z] =
     (if k = 0 then Some (coords_nbt (\<lambda>b. VInt (scast b)) x z)
      else if k = 1 then Some (coords_nbt (\<lambda>b. VLong (scast b)) x z) else None)"
| "tiny_from_bytes _ = None"

fun int_of_tag :: "nbt \<Rightarrow> i64 option" where
  "int_of_tag (VByte b) = Some (scast b)"
| "int_of_tag (VShort s) = Some (scast s)"
| "int_of_tag (VInt i) = Some (scast i)"
| "int_of_tag (VLong l) = Some l"
| "int_of_tag _ = None"

definition tiny_to_bytes :: "nbt \<Rightarrow> bytes option" where
  "tiny_to_bytes v =
     (case v of
        VCompound c \<Rightarrow>
          (case (Option.bind (fmlookup c ''xPos'') int_of_tag, Option.bind (fmlookup c ''zPos'') int_of_tag) of
             (Some x, Some z) \<Rightarrow>
               let d0 = [0, ucast x, ucast z]; d1 = [1, ucast x, ucast z]
               in if tiny_from_bytes d0 = Some v then Some d0
                  else if tiny_from_bytes d1 = Some v then Some d1 else None
           | _ \<Rightarrow> None)
      | _ \<Rightarrow> None)"

definition tiny_nbt :: nbt_lib where
  "tiny_nbt = \<lparr>nbt_from_bytes = tiny_from_bytes, nbt_to_bytes = tiny_to_bytes, nbt_as_i64 = int_of_tag\<rparr>"

lemma tiny_nbt_ok: "nbt_lib_ok tiny_nbt"
  by (auto simp: nbt_lib_ok_def tiny_nbt_def tiny_to_bytes_def Let_def
      split: nbt.splits option.splits prod.splits if_splits)

subsection \<open>Properties\<close>

text \<open>C21: the check of \<open>verify_chunk_coords\<close> and the extraction of the write path agree: a chunk
  passes the check for \<open>(x, z)\<close> exactly when \<open>(x, z)\<close> are the coordinates it declares.\<close>

theorem verify_iff_declared:
  "verify_chunk_coords L raw x z = Inr () \<longleftrightarrow> declared_coords L raw = Some (x, z)"
  by (rule verify_chunk_coords_declared)

end
