(* ===== verification/Nbt_Json.thy ===== *)
theory Nbt_Json
  imports Nbt
begin

text \<open>
  \<open>hoppermc-storage/src/nbt_json.rs\<close>: the conversion of NBT to JSON and back, which the
  \<open>pg_jsonb\<close> mode stores chunks through. \<open>serde_json\<close>'s number type is not in the repository: it is
  the type parameter \<open>'n\<close>, with the operations the source calls in \<open>num_lib\<close> and their documented
  behaviour in \<open>num_lib_ok\<close>. A JSON object (serde's \<open>Map\<close>) is a finite map; \<open>map.insert\<close> in a
  loop over a map of distinct keys is the pointwise image.
\<close>

datatype 'n json =
    JNull
  | JBool bool
  | JNumber 'n
  | JString string
  | JArray "'n json list"
  | JObject "(string, 'n json) fmap"

record 'n num_lib =
  num_of_i64 :: "i64 \<Rightarrow> 'n"
  num_from_f64 :: "f64 \<Rightarrow> 'n option"
  num_as_i64 :: "'n \<Rightarrow> i64 option"
  num_as_f64 :: "'n \<Rightarrow> f64 option"

subsection \<open>Floats\<close>

text \<open>Floats are their IEEE 754 bit patterns; \<open>f as f64\<close> is the exact widening (a subnormal
  \<open>f32\<close> is a normal \<open>f64\<close>; the payload of a NaN is shifted, and stays a NaN).\<close>

definition f64_finite :: "f64 \<Rightarrow> bool" where
  "f64_finite f \<longleftrightarrow> drop_bit 52 f AND 0x7FF \<noteq> 0x7FF"

fun top_bit :: "nat \<Rightarrow> nat" where
  "top_bit n = (if n < 2 then 0 else Suc (top_bit (n div 2)))"

declare top_bit.simps [simp del]

definition f32_to_f64 :: "f32 \<Rightarrow> f64" where
  "f32_to_f64 f =
     (let sign = push_bit 63 (ucast (drop_bit 31 f));
          e = unat (drop_bit 23 f AND 0xFF);
          m = unat (f AND 0x7FFFFF)
      in if e = 255 then sign OR push_bit 52 0x7FF OR push_bit 29 (of_nat m)
         else if e \<noteq> 0 then sign OR push_bit 52 (of_nat (e + 896)) OR push_bit 29 (of_nat m)
         else if m = 0 then sign
         else let k = top_bit m
              in sign OR push_bit 52 (of_nat (k + 874)) OR push_bit (52 - k) (of_nat (m - 2 ^ k)))"

subsection \<open>NBT to JSON\<close>

definition byte_array_key :: string where "byte_array_key = ''__fastnbt_byte_array''"
definition int_array_key :: string where "int_array_key = ''__fastnbt_int_array''"
definition long_array_key :: string where "long_array_key = ''__fastnbt_long_array''"

lemmas array_keys = byte_array_key_def int_array_key_def long_array_key_def

lemma array_keys_distinct [simp]:
  "byte_array_key \<noteq> int_array_key" "byte_array_key \<noteq> long_array_key" "int_array_key \<noteq> long_array_key"
  "int_array_key \<noteq> byte_array_key" "long_array_key \<noteq> byte_array_key" "long_array_key \<noteq> int_array_key"
  by (simp_all add: array_keys)

text \<open>\<open>Number::from_f64(d).unwrap_or(Number::from(0))\<close>.\<close>

definition num_or_zero :: "'n num_lib \<Rightarrow> f64 \<Rightarrow> 'n" where
  "num_or_zero N d = (case num_from_f64 N d of None \<Rightarrow> num_of_i64 N 0 | Some n \<Rightarrow> n)"

definition array_object :: "string \<Rightarrow> 'n list \<Rightarrow> 'n json" where
  "array_object k ns = JObject (fmupd k (JArray (map JNumber ns)) fmempty)"

primrec nbt_to_json :: "'n num_lib \<Rightarrow> nbt \<Rightarrow> 'n json" where
  "nbt_to_json N (VCompound c) = JObject (fmmap (nbt_to_json N) c)"
| "nbt_to_json N (VList l) = JArray (map (nbt_to_json N) l)"
| "nbt_to_json N (VString s) = JString s"
| "nbt_to_json N (VByte b) = JNumber (num_of_i64 N (scast b))"
| "nbt_to_json N (VShort s) = JNumber (num_of_i64 N (scast s))"
| "nbt_to_json N (VInt i) = JNumber (num_of_i64 N (scast i))"
| "nbt_to_json N (VLong l) = JNumber (num_of_i64 N l)"
| "nbt_to_json N (VFloat f) = JNumber (num_or_zero N (f32_to_f64 f))"
| "nbt_to_json N (VDouble d) = JNumber (num_or_zero N d)"
| "nbt_to_json N (VByteArray ba) = array_object byte_array_key (map (\<lambda>b. num_of_i64 N (scast b)) ba)"
| "nbt_to_json N (VIntArray ia) = array_object int_array_key (map (\<lambda>i. num_of_i64 N (scast i)) ia)"
| "nbt_to_json N (VLongArray la) = array_object long_array_key (map (num_of_i64 N) la)"

subsection \<open>JSON to NBT\<close>

text \<open>\<open>serde_json::Value::as_i64\<close>, and the \<open>filter_map\<close> of the array branches.\<close>

definition json_as_i64 :: "'n num_lib \<Rightarrow> 'n json \<Rightarrow> i64 option" where
  "json_as_i64 N v = (case v of JNumber n \<Rightarrow> num_as_i64 N n | _ \<Rightarrow> None)"

definition ints_of :: "'n num_lib \<Rightarrow> 'n json list \<Rightarrow> i64 list" where
  "ints_of N arr = List.map_filter (json_as_i64 N) arr"

text \<open>\<open>if let Some(JsonValue::Array(arr)) = map.get(key)\<close>, and the three tests for a tagged
  array, in the source's order.\<close>

definition array_at :: "(string, 'n json) fmap \<Rightarrow> string \<Rightarrow> 'n json list option" where
  "array_at m k = (case fmlookup m k of Some (JArray arr) \<Rightarrow> Some arr | _ \<Rightarrow> None)"

definition tagged_array :: "'n num_lib \<Rightarrow> (string, 'n json) fmap \<Rightarrow> nbt option" where
  "tagged_array N m =
     (if fcard (fmdom m) = 1 then
        case array_at m byte_array_key of
          Some arr \<Rightarrow> Some (VByteArray (map ucast (ints_of N arr)))
        | None \<Rightarrow>
            (case array_at m int_array_key of
               Some arr \<Rightarrow> Some (VIntArray (map ucast (ints_of N arr)))
             | None \<Rightarrow> map_option (\<lambda>arr. VLongArray (ints_of N arr)) (array_at m long_array_key))
      else None)"

primrec json_to_nbt :: "'n num_lib \<Rightarrow> 'n json \<Rightarrow> nbt" where
  "json_to_nbt N (JObject m) =
     (case tagged_array N m of
        Some a \<Rightarrow> a
      | None \<Rightarrow> VCompound (fmmap (json_to_nbt N) m))"
| "json_to_nbt N (JArray arr) = VList (map (json_to_nbt N) arr)"
| "json_to_nbt N (JString s) = VString s"
| "json_to_nbt N (JNumber num) =
     (case num_as_i64 N num of
        Some i \<Rightarrow> VLong i
      | None \<Rightarrow> (case num_as_f64 N num of Some f \<Rightarrow> VDouble f | None \<Rightarrow> VDouble 0))"
| "json_to_nbt N (JBool b) = VByte (if b then 1 else 0)"
| "json_to_nbt N JNull = VByte 0"

subsection \<open>What is relied on of serde\_json's numbers\<close>

definition num_lib_ok :: "'n num_lib \<Rightarrow> bool" where
  "num_lib_ok N \<longleftrightarrow>
     (\<forall>i. num_as_i64 N (num_of_i64 N i) = Some i) \<and>
     (\<forall>f. num_from_f64 N f \<noteq> None \<longleftrightarrow> f64_finite f) \<and>
     (\<forall>f n. num_from_f64 N f = Some n \<longrightarrow> num_as_i64 N n = None \<and> num_as_f64 N n = Some f)"

subsection \<open>What survives the round trip\<close>

text \<open>JSON has one number type: every integer tag comes back as a \<open>Long\<close> of the same value, every
  float as a \<open>Double\<close>, and a float that JSON cannot write as the \<open>Long\<close> 0.\<close>

definition canon_double :: "f64 \<Rightarrow> nbt" where
  "canon_double d = (if f64_finite d then VDouble d else VLong 0)"

primrec canon :: "nbt \<Rightarrow> nbt" where
  "canon (VByte b) = VLong (scast b)"
| "canon (VShort s) = VLong (scast s)"
| "canon (VInt i) = VLong (scast i)"
| "canon (VLong l) = VLong l"
| "canon (VFloat f) = canon_double (f32_to_f64 f)"
| "canon (VDouble d) = canon_double d"
| "canon (VString s) = VString s"
| "canon (VByteArray a) = VByteArray a"
| "canon (VIntArray a) = VIntArray a"
| "canon (VLongArray a) = VLongArray a"
| "canon (VList l) = VList (map canon l)"
| "canon (VCompound c) = VCompound (fmmap canon c)"

text \<open>A compound that the way back would take for a tagged array: one entry, its key one of the
  three tags, its value a list.\<close>

definition looks_tagged :: "(string, nbt) fmap \<Rightarrow> bool" where
  "looks_tagged c \<longleftrightarrow> fcard (fmdom c) = 1 \<and>
     (\<exists>k \<in> {byte_array_key, int_array_key, long_array_key}. \<exists>l. fmlookup c k = Some (VList l))"

primrec plain :: "nbt \<Rightarrow> bool" where
  "plain (VByte b) = True"
| "plain (VShort s) = True"
| "plain (VInt i) = True"
| "plain (VLong l) = True"
| "plain (VFloat f) = True"
| "plain (VDouble d) = True"
| "plain (VString s) = True"
| "plain (VByteArray a) = True"
| "plain (VIntArray a) = True"
| "plain (VLongArray a) = True"
| "plain (VList l) = list_all (\<lambda>b. b) (map plain l)"
| "plain (VCompound c) = (\<not> looks_tagged c \<and> fmpred (\<lambda>_ b. b) (fmmap plain c))"

text \<open>The values whose tags all survive.\<close>

primrec lossless :: "nbt \<Rightarrow> bool" where
  "lossless (VByte b) = False"
| "lossless (VShort s) = False"
| "lossless (VInt i) = False"
| "lossless (VLong l) = True"
| "lossless (VFloat f) = False"
| "lossless (VDouble d) = f64_finite d"
| "lossless (VString s) = True"
| "lossless (VByteArray a) = True"
| "lossless (VIntArray a) = True"
| "lossless (VLongArray a) = True"
| "lossless (VList l) = list_all (\<lambda>b. b) (map lossless l)"
| "lossless (VCompound c) = fmpred (\<lambda>_ b. b) (fmmap lossless c)"

lemma ucast_scast [simp]:
  "ucast (scast (b :: 8 word) :: 64 word) = b"
  "ucast (scast (i :: 32 word) :: 64 word) = i"
  by (simp_all add: down_cast_same is_down scast_up_scast_id is_up)

lemma num_lib_okD:
  assumes "num_lib_ok N"
  shows "num_as_i64 N (num_of_i64 N i) = Some i"
    and "num_from_f64 N f = None \<longleftrightarrow> \<not> f64_finite f"
    and "num_from_f64 N f = Some n \<Longrightarrow> num_as_i64 N n = None \<and> num_as_f64 N n = Some f"
  using assms unfolding num_lib_ok_def by blast+

lemma ints_of_numbers:
  "num_lib_ok N \<Longrightarrow> ints_of N (map (\<lambda>x. JNumber (num_of_i64 N (f x))) xs) = map f xs"
  by (induction xs) (simp_all add: ints_of_def List.map_filter_def json_as_i64_def num_lib_okD)

lemma fcard_singleton [simp]: "fcard {|x|} = Suc 0"
  by (simp add: fcard_finsert_disjoint)

lemma tagged_array_object:
  "tagged_array N (fmupd k (JArray a) fmempty) =
     (if k = byte_array_key then Some (VByteArray (map ucast (ints_of N a)))
      else if k = int_array_key then Some (VIntArray (map ucast (ints_of N a)))
      else if k = long_array_key then Some (VLongArray (ints_of N a))
      else None)"
  by (auto simp: tagged_array_def array_at_def)

lemma json_to_nbt_number:
  assumes "num_lib_ok N"
  shows "json_to_nbt N (JNumber (num_of_i64 N i)) = VLong i"
    and "json_to_nbt N (JNumber (num_or_zero N d)) = canon_double d"
proof -
  show int: "json_to_nbt N (JNumber (num_of_i64 N i)) = VLong i" for i
    by (simp add: num_lib_okD [OF assms])
  show "json_to_nbt N (JNumber (num_or_zero N d)) = canon_double d"
  proof (cases "num_from_f64 N d")
    case None
    with assms have "\<not> f64_finite d" by (simp add: num_lib_okD)
    with None show ?thesis
      by (simp add: num_or_zero_def canon_double_def int del: json_to_nbt.simps)
  next
    case (Some n)
    then have "f64_finite d" "num_as_i64 N n = None" "num_as_f64 N n = Some d"
      using num_lib_okD(2) [OF assms, of d] num_lib_okD(3) [OF assms, of d n] by auto
    with Some show ?thesis by (simp add: num_or_zero_def canon_double_def)
  qed
qed

lemma nbt_to_json_JArray: "nbt_to_json N v = JArray a \<longleftrightarrow> (\<exists>l. v = VList l \<and> a = map (nbt_to_json N) l)"
  by (cases v) (auto simp: array_object_def)

lemma canon_VCompound: "canon v = VCompound m \<longleftrightarrow> (\<exists>c. v = VCompound c \<and> m = fmmap canon c)"
  by (cases v) (auto simp: canon_double_def)

lemma canon_VList: "canon v = VList m \<longleftrightarrow> (\<exists>l. v = VList l \<and> m = map canon l)"
  by (cases v) (auto simp: canon_double_def)

lemma array_at_image:
  "array_at (fmmap (nbt_to_json N) c) k = None \<longleftrightarrow> (\<forall>l. fmlookup c k \<noteq> Some (VList l))"
proof (cases "fmlookup c k")
  case (Some v)
  then show ?thesis by (cases v) (simp_all add: array_at_def array_object_def)
qed (simp add: array_at_def)

lemma untagged_image:
  "\<not> looks_tagged c \<Longrightarrow> tagged_array N (fmmap (nbt_to_json N) c) = None"
  by (auto simp: tagged_array_def looks_tagged_def array_at_image [THEN iffD2])

lemma fmmap_fmmap_eqI:
  assumes "\<And>v. v \<in> fmran' m \<Longrightarrow> f (g v) = h v"
  shows "fmmap f (fmmap g m) = fmmap h m"
  using assms by (simp add: fmap.map_comp cong: fmap.map_cong)

lemma fmpred_fmmap: "fmpred (\<lambda>_ b. b) (fmmap P c) \<longleftrightarrow> (\<forall>v \<in> fmran' c. P v)"
  by (auto simp: fmpred_iff fmran'_def)

lemma fmmap_id_iff: "fmmap f m = m \<longleftrightarrow> (\<forall>v \<in> fmran' m. f v = v)"
proof
  assume *: "fmmap f m = m"
  show "\<forall>v \<in> fmran' m. f v = v"
  proof
    fix v
    assume "v \<in> fmran' m"
    then obtain k where k: "fmlookup m k = Some v" by (rule fmran'E)
    have "fmlookup (fmmap f m) k = Some v" using * k by simp
    with k show "f v = v" by simp
  qed
next
  assume "\<forall>v \<in> fmran' m. f v = v"
  then have "fmmap f m = fmmap (\<lambda>v. v) m" by (simp cong: fmap.map_cong)
  then show "fmmap f m = m" by (simp add: fmap.map_ident)
qed

lemma json_roundtrip_canon:
  "num_lib_ok N \<Longrightarrow> plain v \<Longrightarrow> json_to_nbt N (nbt_to_json N v) = canon v"
proof (induction v)
  case (VCompound c)
  then show ?case
    by (simp add: untagged_image fmpred_fmmap del: fmpred_map) (intro fmmap_fmmap_eqI, blast)
qed (simp_all add: json_to_nbt_number array_object_def tagged_array_object ints_of_numbers
    ints_of_numbers [where f = "\<lambda>x. x", simplified] list_all_iff o_def del: json_to_nbt.simps(4))

lemma canon_idem: "canon (canon v) = canon v"
  by (induction v) (auto simp: canon_double_def intro: fmmap_fmmap_eqI)

lemma canon_eq_self: "canon v = v \<longleftrightarrow> lossless v"
proof (induction v)
  case (VList l)
  then have "map canon l = l \<longleftrightarrow> (\<forall>v \<in> set l. lossless v)"
    using map_eq_conv [of canon l "\<lambda>v. v"] by simp
  then show ?case by (simp add: list_all_iff)
next
  case (VCompound c)
  then show ?case
    using fmmap_id_iff [of canon c] by (simp add: fmpred_fmmap del: fmpred_map)
qed (auto simp: canon_double_def)

lemma plain_canon: "plain v \<Longrightarrow> plain (canon v)"
proof (induction v)
  case (VCompound c)
  then show ?case
    by (auto simp: fmpred_fmmap looks_tagged_def canon_VList fmap.set_map
        simp del: fmpred_map)
qed (auto simp: canon_double_def list_all_iff)

text \<open>A compound that looks like a tagged array comes back as an array, not as itself.\<close>

lemma tagged_array_no_compound: "tagged_array N m \<noteq> Some (VCompound c)"
  by (auto simp: tagged_array_def split: option.splits)

lemma tagged_image: "looks_tagged c \<Longrightarrow> tagged_array N (fmmap (nbt_to_json N) c) \<noteq> None"
  using array_at_image [of N c] by (auto simp: tagged_array_def looks_tagged_def split: option.split)

lemma roundtrip_VCompound:
  "json_to_nbt N (nbt_to_json N (VCompound c)) = VCompound c \<longleftrightarrow>
     \<not> looks_tagged c \<and> (\<forall>v \<in> fmran' c. json_to_nbt N (nbt_to_json N v) = v)"
proof (cases "looks_tagged c")
  case True
  then obtain a where "tagged_array N (fmmap (nbt_to_json N) c) = Some a" using tagged_image by blast
  then show ?thesis using True tagged_array_no_compound [of N "fmmap (nbt_to_json N) c"] by auto
next
  case False
  then show ?thesis
    using fmmap_id_iff [of "\<lambda>v. json_to_nbt N (nbt_to_json N v)" c] by (simp add: untagged_image fmap.map_comp o_def)
qed

lemma roundtrip_VList:
  "json_to_nbt N (nbt_to_json N (VList l)) = VList l \<longleftrightarrow> (\<forall>v \<in> set l. json_to_nbt N (nbt_to_json N v) = v)"
  using map_eq_conv [of "\<lambda>v. json_to_nbt N (nbt_to_json N v)" l "\<lambda>v. v"] by (simp add: o_def)

lemma roundtrip_exact:
  assumes "num_lib_ok N"
  shows "json_to_nbt N (nbt_to_json N v) = v \<longleftrightarrow> plain v \<and> lossless v"
proof (induction v)
  case (VCompound c)
  then show ?case by (auto simp: roundtrip_VCompound fmpred_fmmap simp del: fmpred_map json_to_nbt.simps nbt_to_json.simps)
next
  case (VList l)
  then show ?case by (auto simp: roundtrip_VList list_all_iff simp del: json_to_nbt.simps nbt_to_json.simps)
qed (simp_all add: json_roundtrip_canon [OF assms] canon_double_def del: json_to_nbt.simps nbt_to_json.simps)

subsection \<open>Lists of one kind\<close>

text \<open>NBT lists hold elements of one tag; \<open>tag_id\<close> is the tag's number in the format.\<close>

fun tag_id :: "nbt \<Rightarrow> nat" where
  "tag_id (VByte _) = 1"
| "tag_id (VShort _) = 2"
| "tag_id (VInt _) = 3"
| "tag_id (VLong _) = 4"
| "tag_id (VFloat _) = 5"
| "tag_id (VDouble _) = 6"
| "tag_id (VByteArray _) = 7"
| "tag_id (VString _) = 8"
| "tag_id (VList _) = 9"
| "tag_id (VCompound _) = 10"
| "tag_id (VIntArray _) = 11"
| "tag_id (VLongArray _) = 12"

definition one_kind :: "nat list \<Rightarrow> bool" where
  "one_kind ts \<longleftrightarrow> (\<forall>t \<in> set ts. t = hd ts)"

primrec uniform_lists :: "nbt \<Rightarrow> bool" where
  "uniform_lists (VByte b) = True"
| "uniform_lists (VShort s) = True"
| "uniform_lists (VInt i) = True"
| "uniform_lists (VLong l) = True"
| "uniform_lists (VFloat f) = True"
| "uniform_lists (VDouble d) = True"
| "uniform_lists (VString s) = True"
| "uniform_lists (VByteArray a) = True"
| "uniform_lists (VIntArray a) = True"
| "uniform_lists (VLongArray a) = True"
| "uniform_lists (VList l) = (one_kind (map tag_id l) \<and> list_all (\<lambda>b. b) (map uniform_lists l))"
| "uniform_lists (VCompound c) = fmpred (\<lambda>_ b. b) (fmmap uniform_lists c)"

primrec finite_floats :: "nbt \<Rightarrow> bool" where
  "finite_floats (VByte b) = True"
| "finite_floats (VShort s) = True"
| "finite_floats (VInt i) = True"
| "finite_floats (VLong l) = True"
| "finite_floats (VFloat f) = f64_finite (f32_to_f64 f)"
| "finite_floats (VDouble d) = f64_finite d"
| "finite_floats (VString s) = True"
| "finite_floats (VByteArray a) = True"
| "finite_floats (VIntArray a) = True"
| "finite_floats (VLongArray a) = True"
| "finite_floats (VList l) = list_all (\<lambda>b. b) (map finite_floats l)"
| "finite_floats (VCompound c) = fmpred (\<lambda>_ b. b) (fmmap finite_floats c)"

text \<open>The tag the round trip gives a value depends on its own tag only, if its floats are finite.\<close>

definition canon_tag :: "nat \<Rightarrow> nat" where
  "canon_tag t = (if t \<le> 4 then 4 else if t \<le> 6 then 6 else t)"

lemma tag_id_canon: "finite_floats v \<Longrightarrow> tag_id (canon v) = canon_tag (tag_id v)"
  by (cases v) (simp_all add: canon_tag_def canon_double_def)

lemma one_kind_image: "one_kind ts \<Longrightarrow> one_kind (map f ts)"
  by (cases ts) (auto simp: one_kind_def)

lemma uniform_lists_canon: "uniform_lists v \<Longrightarrow> finite_floats v \<Longrightarrow> uniform_lists (canon v)"
proof (induction v)
  case (VList l)
  then have "map (tag_id \<circ> canon) l = map canon_tag (map tag_id l)"
    by (simp add: list_all_iff tag_id_canon)
  then have "one_kind (map (tag_id \<circ> canon) l)"
    using VList.prems one_kind_image [of "map tag_id l" canon_tag] by (simp only: uniform_lists.simps)
  then show ?case
    using VList by (simp add: list_all_iff)
next
  case (VCompound c)
  then show ?case
    by (auto simp: fmpred_fmmap fmap.set_map simp del: fmpred_map)
qed (simp_all add: canon_double_def)

subsection \<open>Properties\<close>

text \<open>A number type for the witnesses: an integer or a float.\<close>

definition sum_num_lib :: "(i64 + f64) num_lib" where
  "sum_num_lib = \<lparr>num_of_i64 = Inl, num_from_f64 = (\<lambda>f. if f64_finite f then Some (Inr f) else None),
     num_as_i64 = case_sum Some (\<lambda>_. None), num_as_f64 = case_sum (\<lambda>_. None) Some\<rparr>"

lemma sum_num_lib_ok: "num_lib_ok sum_num_lib"
  by (auto simp: num_lib_ok_def sum_num_lib_def split: if_splits)



text \<open>C23: exactly which NBT values come back from JSON unchanged: those without a compound that the way
  back takes for a tagged array (\<open>plain\<close>) and whose numbers are \<open>Long\<close>s, finite \<open>Double\<close>s or array
  elements (\<open>lossless\<close>). Every other value comes back as a different one.\<close>

theorem json_exact_iff:
  assumes "num_lib_ok N"
  shows "json_to_nbt N (nbt_to_json N v) = v \<longleftrightarrow> plain v \<and> lossless v"
  by (rule roundtrip_exact [OF assms])

text \<open>Three values: one that comes back, one that becomes a \<open>Long\<close>, and a compound of a list of
  \<open>Long\<close>s that becomes an array.\<close>

theorem json_exact_iff_witness:
  "json_to_nbt sum_num_lib (nbt_to_json sum_num_lib (VLongArray [5, 6])) = VLongArray [5, 6] \<and>
   json_to_nbt sum_num_lib (nbt_to_json sum_num_lib (VInt 5)) \<noteq> VInt 5 \<and>
   json_to_nbt sum_num_lib (nbt_to_json sum_num_lib (VCompound (fmupd byte_array_key (VList [VLong 7]) fmempty)))
     \<noteq> VCompound (fmupd byte_array_key (VList [VLong 7]) fmempty)"
proof -
  let ?v = "VCompound (fmupd byte_array_key (VList [VLong 7]) fmempty)"
  have "\<not> plain ?v" by (simp add: looks_tagged_def)
  then show ?thesis
    using json_exact_iff [OF sum_num_lib_ok, of "VLongArray [5, 6]"]
      json_exact_iff [OF sum_num_lib_ok, of "VInt 5"] json_exact_iff [OF sum_num_lib_ok, of ?v]
    by (simp only: plain.simps lossless.simps simp_thms)
qed



text \<open>One float that is not finite breaks this: the list of the floats infinity and 1.5 is
  uniform, but comes back as a \<open>Long\<close> 0 followed by a \<open>Double\<close> 1.5, which is no NBT list.\<close>

lemma infinite_float_breaks_list:
  assumes "num_lib_ok N"
  defines "v \<equiv> VList [VFloat 0x7F800000, VFloat 0x3FC00000]"
  shows "uniform_lists v \<and>
    json_to_nbt N (nbt_to_json N v) = VList [VLong 0, VDouble 0x3FF8000000000000] \<and>
    \<not> uniform_lists (json_to_nbt N (nbt_to_json N v))"
proof -
  have fl: "f32_to_f64 0x7F800000 = 0x7FF0000000000000" "f32_to_f64 0x3FC00000 = 0x3FF8000000000000"
    by (simp_all add: f32_to_f64_def Let_def)
  have fin: "\<not> f64_finite 0x7FF0000000000000" "f64_finite 0x3FF8000000000000"
    by (simp_all add: f64_finite_def)
  have "json_to_nbt N (nbt_to_json N v) = VList [VLong 0, VDouble 0x3FF8000000000000]"
    using json_roundtrip_canon [OF assms(1), of v]
    by (simp add: v_def canon_double_def fl fin)
  then show ?thesis by (simp add: one_kind_def v_def)
qed

end
