(* ===== verification/Inode.thy ===== *)
theory Inode
  imports Prelude
begin

text \<open>
  \<open>hoppermc-fs/src/inode.rs\<close>: inode numbers. A region file's inode carries both region
  coordinates (24 bits each, offset to be positive) under the flag in bit 63; any other file's
  carries a 62-bit hash of its name under the flag in bit 62. The locale \<open>inode_codec\<close> is what
  the FUSE handlers rely on.
\<close>

subsection \<open>The code\<close>

definition OFFSET :: i32 where "OFFSET = 8000000"
definition MASK :: u64 where "MASK = 0xFFFFFF"
definition REGION_INODE_START :: u64 where "REGION_INODE_START = 0x8000000000000000"
definition GENERIC_INODE_START :: u64 where "GENERIC_INODE_START = 0x4000000000000000"

lemmas inode_consts = OFFSET_def MASK_def REGION_INODE_START_def GENERIC_INODE_START_def

definition is_region_inode :: "u64 \<Rightarrow> bool" where
  "is_region_inode ino \<longleftrightarrow> ino AND REGION_INODE_START \<noteq> 0"

definition is_generic_inode :: "u64 \<Rightarrow> bool" where
  "is_generic_inode ino \<longleftrightarrow> ino AND GENERIC_INODE_START \<noteq> 0"

definition pack :: "i32 \<Rightarrow> i32 \<Rightarrow> u64" where
  "pack x z =
     (let x_enc = (scast (x + OFFSET) :: u64) AND MASK;
          z_enc = (scast (z + OFFSET) :: u64) AND MASK
      in REGION_INODE_START OR push_bit 24 x_enc OR z_enc)"

text \<open>The source's multiplier is the hexadecimal literal \<open>0x1099511628211\<close>.\<close>

definition fnv1a_step :: "u64 \<Rightarrow> u8 \<Rightarrow> u64" where
  "fnv1a_step hash byte = (hash XOR ucast byte) * 0x1099511628211"

definition fnv1a_hash :: "bytes \<Rightarrow> u64" where
  "fnv1a_hash text = foldl fnv1a_step 0xcbf29ce484222325 text"

definition pack_generic :: "bytes \<Rightarrow> u64" where
  "pack_generic name = GENERIC_INODE_START OR (fnv1a_hash name AND 0x3FFFFFFFFFFFFFFF)"

definition unpack :: "u64 \<Rightarrow> (i32 \<times> i32) option" where
  "unpack ino =
     (if \<not> is_region_inode ino then None
      else let x_enc = drop_bit 24 ino AND MASK;
               z_enc = ino AND MASK;
               x = ucast x_enc - OFFSET;
               z = ucast z_enc - OFFSET
           in Some (x, z))"

subsection \<open>Bits\<close>

lemma start_exp: "REGION_INODE_START = 2 ^ 63" "GENERIC_INODE_START = 2 ^ 62"
  by (simp_all add: inode_consts)

lemma region_flag: "is_region_inode ino \<longleftrightarrow> bit ino 63"
  unfolding is_region_inode_def start_exp and_exp_eq_0_iff_not_bit by simp

lemma generic_flag: "is_generic_inode ino \<longleftrightarrow> bit ino 62"
  unfolding is_generic_inode_def start_exp and_exp_eq_0_iff_not_bit by simp

lemma bit_starts: "bit REGION_INODE_START n \<longleftrightarrow> n = 63" "bit GENERIC_INODE_START n \<longleftrightarrow> n = 62"
  unfolding start_exp bit_exp_iff by auto

text \<open>The 24-bit field of one coordinate.\<close>

definition field :: "i32 \<Rightarrow> u64" where
  "field x = take_bit 24 (scast (x + OFFSET))"

lemma pack_alt: "pack x z = REGION_INODE_START OR push_bit 24 (field x) OR field z"
  by (simp add: pack_def field_def Let_def MASK_def and_mask24)

lemma bit_field: "bit (field x) n \<Longrightarrow> n < 24"
  by (simp add: field_def bit_take_bit_iff)

lemma bit_pack: "bit (pack x z) n \<longleftrightarrow>
    n = 63 \<or> (24 \<le> n \<and> n < 48 \<and> bit (field x) (n - 24)) \<or> (n < 24 \<and> bit (field z) n)"
  by (auto simp: pack_alt bit_or_iff bit_push_bit_iff bit_starts dest: bit_field)

lemma fields_of_pack:
  "take_bit 24 (drop_bit 24 (pack x z)) = field x" "take_bit 24 (pack x z) = field z"
  by (rule bit_word_eqI; auto simp: bit_take_bit_iff bit_drop_bit_eq bit_pack dest: bit_field)+

subsection \<open>Coordinates\<close>

text \<open>The value 24 bits and the offset leave of a coordinate, and the coordinates they keep.\<close>

definition wrap24 :: "i32 \<Rightarrow> i32" where
  "wrap24 x = word_of_int ((sint x + 8000000) mod 16777216 - 8000000)"

definition in_range :: "i32 \<Rightarrow> bool" where
  "in_range x \<longleftrightarrow> - 8000000 \<le> sint x \<and> sint x < 8777216"

lemma field_int: "field x = word_of_int ((sint x + 8000000) mod 16777216)"
proof -
  have "field x = word_of_int (sint (x + OFFSET) mod 16777216)"
    by (simp add: field_def low24_scast flip: and_mask24)
  also have "sint (x + OFFSET) mod 16777216 = (sint x + 8000000) mod 16777216"
  proof -
    have "take_bit 24 (sint (x + OFFSET)) = take_bit 24 (sint x + sint OFFSET)"
      by (simp add: sint_word_add take_bit_signed_take_bit del: sint_sbintrunc)
    then show ?thesis by (simp add: take_bit_eq_mod OFFSET_def)
  qed
  finally show ?thesis .
qed

lemma field_decode: "ucast (field x) - OFFSET = wrap24 x"
  by (simp add: field_int wrap24_def OFFSET_def ucast_down_wi is_down)

lemma sint_wrap24: "sint (wrap24 x) = (sint x + 8000000) mod 16777216 - 8000000"
proof -
  let ?k = "(sint x + 8000000) mod 16777216 - 8000000"
  have "- 8000000 \<le> ?k" "?k < 8777216" by simp_all
  then show ?thesis
    by (simp add: wrap24_def sint_sbintrunc' signed_take_bit_int_eq_self del: of_int_diff)
qed

lemma wrap24_in_range: "in_range (wrap24 x)"
  unfolding in_range_def sint_wrap24 by simp

lemma wrap24_eq_iff: "wrap24 x = x \<longleftrightarrow> in_range x"
proof
  assume "in_range x"
  then have "sint (wrap24 x) = sint x" by (simp add: sint_wrap24 in_range_def)
  then show "wrap24 x = x" by (simp only: signed_word_eqI)
qed (metis wrap24_in_range)

lemma unpack_pack_wrap: "unpack (pack x z) = Some (wrap24 x, wrap24 z)"
  by (simp add: unpack_def Let_def region_flag bit_pack MASK_def and_mask24 fields_of_pack field_decode)

lemma unpack_None_iff: "unpack ino = None \<longleftrightarrow> \<not> is_region_inode ino"
  by (simp add: unpack_def Let_def)

lemma decode_in_range: "in_range (ucast (take_bit 24 (w :: u64)) - OFFSET)"
proof -
  let ?k = "int (unat w mod 16777216) - 8000000"
  have "ucast (take_bit 24 w) - OFFSET = word_of_int ?k"
    by (simp add: OFFSET_def flip: and_mask24 unat_and_mask24) 
  moreover have "- 8000000 \<le> ?k" "?k < 8777216" by simp_all
  ultimately show ?thesis
    by (simp add: in_range_def sint_sbintrunc' signed_take_bit_int_eq_self del: of_int_diff)
qed

subsection \<open>The interface of the FUSE layer\<close>

text \<open>
  What the handlers need of inode numbers: packing is undone by unpacking for the coordinates
  \<open>valid\<close> admits, an inode is a region's exactly when it unpacks, and the two kinds of inode and
  the root directory are apart.
\<close>

locale inode_codec =
  fixes pack_of :: "'c \<Rightarrow> 'i"
    and name_of :: "'n \<Rightarrow> 'i"
    and unpack_of :: "'i \<Rightarrow> 'c option"
    and is_region is_generic :: "'i \<Rightarrow> bool"
    and root :: 'i
    and valid :: "'c \<Rightarrow> bool"
  assumes unpack_pack_of: "valid c \<Longrightarrow> unpack_of (pack_of c) = Some c"
    and unpack_valid: "unpack_of i = Some c \<Longrightarrow> valid c"
    and region_iff: "is_region i \<longleftrightarrow> unpack_of i \<noteq> None"
    and pack_flags: "is_region (pack_of c) \<and> \<not> is_generic (pack_of c)"
    and name_flags: "is_generic (name_of n) \<and> \<not> is_region (name_of n)"
    and root_flags: "\<not> is_generic root \<and> \<not> is_region root"
begin

lemma pack_of_inj: "valid c \<Longrightarrow> valid c' \<Longrightarrow> pack_of c = pack_of c' \<longleftrightarrow> c = c'"
  using unpack_pack_of by (metis option.inject)

lemma kinds_apart: "pack_of c \<noteq> name_of n" "pack_of c \<noteq> root" "name_of n \<noteq> root"
  using pack_flags name_flags root_flags by metis+

lemma unpack_name: "unpack_of (name_of n) = None"
  using name_flags region_iff by blast

end

lemma in_range_unpack: "unpack ino = Some (x, z) \<Longrightarrow> in_range x \<and> in_range z"
  by (auto simp: unpack_def Let_def MASK_def and_mask24 decode_in_range split: if_splits)

lemma bit_pack_generic: "bit (pack_generic name) n \<longleftrightarrow> n = 62 \<or> (n < 62 \<and> bit (fnv1a_hash name) n)"
proof -
  have "pack_generic name = GENERIC_INODE_START OR (fnv1a_hash name AND mask 62)"
    by (simp add: pack_generic_def mask_eq_exp_minus_1)
  then show ?thesis
    by (simp only: bit_or_iff bit_and_iff bit_starts bit_mask_iff) auto
qed

lemma root_inode_plain: "\<not> is_region_inode 1" "\<not> is_generic_inode 1"
  by (simp_all add: is_region_inode_def is_generic_inode_def inode_consts)

interpretation inode: inode_codec "\<lambda>(x, z). pack x z" pack_generic unpack
  is_region_inode is_generic_inode 1 "\<lambda>(x, z). in_range x \<and> in_range z"
  by unfold_locales
     (auto simp: unpack_pack_wrap wrap24_eq_iff region_flag generic_flag bit_pack bit_pack_generic
       root_inode_plain [unfolded region_flag generic_flag]
       unpack_None_iff [unfolded region_flag] dest: in_range_unpack simp del: not_None_eq)

subsection \<open>Properties\<close>

text \<open>C25: unpacking an inode gives back the packed region coordinates exactly when both lie in
  \<open>-8000000 .. 8777215\<close>; any other coordinate comes back reduced modulo \<open>2 ^ 24\<close>.\<close>

theorem unpack_pack:
  "unpack (pack x z) = Some (wrap24 x, wrap24 z) \<and>
   (unpack (pack x z) = Some (x, z) \<longleftrightarrow> in_range x \<and> in_range z)"
  by (simp add: unpack_pack_wrap wrap24_eq_iff)

text \<open>C26: two regions inside the packable range never share an inode, and a region's inode, a
  generic file's inode and the root directory's inode are always different.\<close>

theorem inodes_apart:
  assumes "in_range x" "in_range z" "in_range x'" "in_range z'"
  shows "(pack x z = pack x' z' \<longleftrightarrow> x = x' \<and> z = z') \<and>
    pack x z \<noteq> pack_generic name \<and> pack x z \<noteq> 1 \<and> pack_generic name \<noteq> 1"
  using assms inode.pack_of_inj [of "(x, z)" "(x', z')"] inode.kinds_apart(1) [of "(x, z)" name]
    inode.kinds_apart(2) [of "(x, z)"] inode.kinds_apart(3) [of name]
  by auto

theorem inodes_apart_witness:
  "pack 0 0 \<noteq> pack 0 (- 1) \<and> pack 0 0 \<noteq> pack_generic [98] \<and> pack 0 0 \<noteq> 1"
  using inodes_apart [of 0 0 0 "- 1" "[98]"] by (simp add: in_range_def)

text \<open>Outside the packable range regions do collide: a region and the one 16777216 further
  along the x axis have the same inode, so one file's reads and writes reach the other's chunks.\<close>

lemma inodes_collide: "pack x z = pack (x + 16777216) z \<and> x \<noteq> x + 16777216"
proof -
  have "sint (x + 16777216) mod 16777216 = sint x mod 16777216"
  proof -
    have "take_bit 24 (sint (x + 16777216)) = take_bit 24 (sint x + sint (16777216 :: i32))"
      by (simp add: sint_word_add take_bit_signed_take_bit del: sint_sbintrunc)
    then show ?thesis by (simp add: take_bit_eq_mod)
  qed
  then have "(sint (x + 16777216) + 8000000) mod 16777216 = (sint x + 8000000) mod 16777216"
    by (metis mod_add_left_eq)
  then have "field (x + 16777216) = field x" by (simp only: field_int)
  then show ?thesis by (simp add: pack_alt)
qed

end
