(* ===== verification/Metrics.thy ===== *)
theory Metrics
  imports Prelude "HOL-Library.Multiset"
begin

text \<open>
  \<open>hoppermc-benchmark/src/lib.rs\<close>: the counters of \<open>BenchmarkMetrics\<close>. Every field of the
  struct is an atomic integer that threads update without a lock, so the state is a cell per
  field, and a \<open>record_*\<close> method is the list of atomic operations it performs, in the source's
  order: other threads may run between two of them. \<open>AtomicUsize\<close> and \<open>AtomicU64\<close> are both 64
  bits wide and wrap around. A \<open>Duration\<close> is its number of microseconds.
\<close>

datatype counter =
    Total_chunks_generated | Total_generation_time_us | Max_generation_time_us
  | Total_chunks_loaded | Total_load_time_us | Total_chunks_saved | Total_save_time_us
  | Total_generation_biomes_us | Total_generation_noise_us | Total_generation_surface_us
  | Total_generation_conversion_us
  | Total_serialization_us | Total_compression_us
  | Total_fuse_read_count | Total_fuse_read_time_us | Total_fuse_bytes_sent
  | Total_gen_bytes_raw | Total_gen_bytes_compressed
  | Total_cache_hits | Total_cache_misses
  | Total_db_size_bytes

record metrics =
  cell :: "counter \<Rightarrow> u64"
  start_time :: "nat option"
  config_summary :: string

text \<open>\<open>BenchmarkMetrics::new\<close>, at the instant \<open>now\<close>: every counter at its default.\<close>

definition metrics_new :: "nat \<Rightarrow> string \<Rightarrow> metrics" where
  "metrics_new now cfg = \<lparr>cell = (\<lambda>_. 0), start_time = Some now, config_summary = cfg\<rparr>"

subsection \<open>Atomic operations\<close>

datatype atomic = Fetch_add counter u64 | Fetch_max counter u64 | Store counter u64

fun exec :: "atomic \<Rightarrow> metrics \<Rightarrow> metrics" where
  "exec (Fetch_add c n) m = m\<lparr>cell := (cell m)(c := cell m c + n)\<rparr>"
| "exec (Fetch_max c n) m = m\<lparr>cell := (cell m)(c := max (cell m c) n)\<rparr>"
| "exec (Store c n) m = m\<lparr>cell := (cell m)(c := n)\<rparr>"

definition run :: "atomic list \<Rightarrow> metrics \<Rightarrow> metrics" where
  "run ops m = fold exec ops m"

type_synonym duration = nat

definition as_us :: "duration \<Rightarrow> u64" where
  "as_us d = of_nat d"

subsection \<open>The recording methods\<close>

definition record_db_size :: "u64 \<Rightarrow> atomic list" where
  "record_db_size n = [Store Total_db_size_bytes n]"

definition record_generation :: "duration \<Rightarrow> atomic list" where
  "record_generation d =
     [Fetch_add Total_chunks_generated 1,
      Fetch_add Total_generation_time_us (as_us d),
      Fetch_max Max_generation_time_us (as_us d)]"

definition record_load :: "duration \<Rightarrow> atomic list" where
  "record_load d = [Fetch_add Total_chunks_loaded 1, Fetch_add Total_load_time_us (as_us d)]"

definition record_save :: "duration \<Rightarrow> atomic list" where
  "record_save d = [Fetch_add Total_chunks_saved 1, Fetch_add Total_save_time_us (as_us d)]"

definition record_generation_biomes :: "duration \<Rightarrow> atomic list" where
  "record_generation_biomes d = [Fetch_add Total_generation_biomes_us (as_us d)]"

definition record_generation_noise :: "duration \<Rightarrow> atomic list" where
  "record_generation_noise d = [Fetch_add Total_generation_noise_us (as_us d)]"

definition record_generation_surface :: "duration \<Rightarrow> atomic list" where
  "record_generation_surface d = [Fetch_add Total_generation_surface_us (as_us d)]"

definition record_generation_conversion :: "duration \<Rightarrow> atomic list" where
  "record_generation_conversion d = [Fetch_add Total_generation_conversion_us (as_us d)]"

definition record_serialization :: "duration \<Rightarrow> atomic list" where
  "record_serialization d = [Fetch_add Total_serialization_us (as_us d)]"

definition record_compression :: "duration \<Rightarrow> atomic list" where
  "record_compression d = [Fetch_add Total_compression_us (as_us d)]"

definition record_fuse_request :: "duration \<Rightarrow> nat \<Rightarrow> atomic list" where
  "record_fuse_request d bytes_sent =
     [Fetch_add Total_fuse_read_count 1,
      Fetch_add Total_fuse_read_time_us (as_us d),
      Fetch_add Total_fuse_bytes_sent (of_nat bytes_sent)]"

definition record_chunk_sizes :: "nat \<Rightarrow> nat \<Rightarrow> atomic list" where
  "record_chunk_sizes raw compressed =
     [Fetch_add Total_gen_bytes_raw (of_nat raw),
      Fetch_add Total_gen_bytes_compressed (of_nat compressed)]"

definition record_cache_hit :: "atomic list" where
  "record_cache_hit = [Fetch_add Total_cache_hits 1]"

definition record_cache_miss :: "atomic list" where
  "record_cache_miss = [Fetch_add Total_cache_misses 1]"

lemmas record_defs =
  record_db_size_def record_generation_def record_load_def record_save_def
  record_generation_biomes_def record_generation_noise_def record_generation_surface_def
  record_generation_conversion_def record_serialization_def record_compression_def
  record_fuse_request_def record_chunk_sizes_def record_cache_hit_def record_cache_miss_def

subsection \<open>Interleavings\<close>

text \<open>The operations whose effect does not depend on what ran before: additions to a counter that
  is never maximised, and maxima of the one that is never added to.\<close>

fun commutative :: "atomic \<Rightarrow> bool" where
  "commutative (Fetch_add c n) = (c \<noteq> Max_generation_time_us)"
| "commutative (Fetch_max c n) = (c = Max_generation_time_us)"
| "commutative (Store c n) = False"

lemma exec_commute: "commutative a \<Longrightarrow> commutative b \<Longrightarrow> exec a \<circ> exec b = exec b \<circ> exec a"
  by (cases a; cases b) (auto simp: fun_eq_iff fun_upd_twist max.commute max.left_commute
      add.commute add.left_commute)

lemma run_append: "run (xs @ ys) m = run ys (run xs m)"
  by (simp add: run_def)

lemma run_mset_eq:
  assumes "\<forall>a \<in> set ops. commutative a" and "mset ops = mset ops'"
  shows "run ops m = run ops' m"
  unfolding run_def
  using assms by (intro fun_cong [OF fold_multiset_equiv]) (auto intro: exec_commute)

text \<open>What a list of operations adds to one counter.\<close>

fun added :: "counter \<Rightarrow> atomic \<Rightarrow> u64" where
  "added c (Fetch_add c' n) = (if c = c' then n else 0)"
| "added c (Fetch_max c' n) = 0"
| "added c (Store c' n) = 0"

lemma cell_run_add:
  assumes "\<forall>a \<in> set ops. commutative a" and "c \<noteq> Max_generation_time_us"
  shows "cell (run ops m) c = cell m c + sum_list (map (added c) ops)"
  using assms
proof (induction ops arbitrary: m)
  case (Cons a ops)
  then show ?case by (cases a) (auto simp: run_def add.assoc)
qed (simp add: run_def)

text \<open>One call of a recording method by some thread.\<close>

datatype event =
    Generation duration | Load duration | Save duration
  | Biomes duration | Noise duration | Surface duration | Conversion duration
  | Serialization duration | Compression duration
  | Fuse_request duration nat | Chunk_sizes nat nat | Cache_hit | Cache_miss

fun ops_of :: "event \<Rightarrow> atomic list" where
  "ops_of (Generation d) = record_generation d"
| "ops_of (Load d) = record_load d"
| "ops_of (Save d) = record_save d"
| "ops_of (Biomes d) = record_generation_biomes d"
| "ops_of (Noise d) = record_generation_noise d"
| "ops_of (Surface d) = record_generation_surface d"
| "ops_of (Conversion d) = record_generation_conversion d"
| "ops_of (Serialization d) = record_serialization d"
| "ops_of (Compression d) = record_compression d"
| "ops_of (Fuse_request d n) = record_fuse_request d n"
| "ops_of (Chunk_sizes raw cmp) = record_chunk_sizes raw cmp"
| "ops_of Cache_hit = record_cache_hit"
| "ops_of Cache_miss = record_cache_miss"

lemma ops_of_commutative: "a \<in> set (ops_of e) \<Longrightarrow> commutative a"
  by (cases e) (auto simp: record_defs)

lemma added_ops_of:
  "sum_list (map (added Total_cache_hits) (ops_of e)) = (if e = Cache_hit then 1 else 0)"
  "sum_list (map (added Total_cache_misses) (ops_of e)) = (if e = Cache_miss then 1 else 0)"
  by (cases e; simp add: record_defs)+

lemma sum_list_indicator: "sum_list (map (\<lambda>x. if x = y then 1 else 0) xs) = of_nat (count_list xs y)"
  by (induction xs) simp_all

lemma added_concat:
  "sum_list (map (added c) (concat (map ops_of es))) = sum_list (map (\<lambda>e. sum_list (map (added c) (ops_of e))) es)"
  by (induction es) simp_all

subsection \<open>Properties\<close>

text \<open>C27: metrics need no lock: for any calls of the recording methods (that of the database size,
  which overwrites, aside) and any order \<open>ops\<close> in which the threads' atomic operations are
  interleaved, all counters end as if the calls had run one after the other; and the hit and miss
  counters count exactly the hits and misses.\<close>

theorem metrics_interleaving:
  assumes "mset ops = mset (concat (map ops_of es))"
  shows "run ops m = run (concat (map ops_of es)) m \<and>
    cell (run ops m) Total_cache_hits = cell m Total_cache_hits + of_nat (count_list es Cache_hit) \<and>
    cell (run ops m) Total_cache_misses = cell m Total_cache_misses + of_nat (count_list es Cache_miss)"
proof -
  let ?seq = "concat (map ops_of es)"
  have comm: "\<forall>a \<in> set ?seq. commutative a"
    by (auto intro: ops_of_commutative)
  have "run ops m = run ?seq m"
    using run_mset_eq [OF comm, of ops m] assms by simp
  then show ?thesis
    using cell_run_add [OF comm, of Total_cache_hits m] cell_run_add [OF comm, of Total_cache_misses m]
    by (simp add: added_concat added_ops_of sum_list_indicator)
qed

theorem metrics_interleaving_witness:
  "run [Fetch_add Total_chunks_loaded 1, Fetch_add Total_cache_misses 1, Fetch_add Total_load_time_us 5]
       (metrics_new 0 []) =
     run (record_cache_miss @ record_load 5) (metrics_new 0 [])"
  using metrics_interleaving
    [of "[Fetch_add Total_chunks_loaded 1, Fetch_add Total_cache_misses 1, Fetch_add Total_load_time_us 5]"
        "[Cache_miss, Load 5]" "metrics_new 0 []"]
  by (simp add: record_defs as_us_def)

end
