(* ===== verification/Report.thy ===== *)
theory Report
  imports Metrics Complex_Main
begin

text \<open>
  \<open>generate_report\<close> of \<open>hoppermc-benchmark/src/lib.rs\<close>: the numbers of the report and its text.
  A finite \<open>f64\<close> is a real, \<open>None\<close> a NaN or an infinity; every operation rounds its exact result by
  \<open>rnd\<close>, of which only \<open>rounding\<close> is used. Counters are below \<open>2 ^ 64\<close>, so no result here comes near
  the overflow or the underflow of \<open>f64\<close>. \<open>{:.2?}\<close> of a \<open>Duration\<close> is a parameter.
\<close>

subsection \<open>Floating point\<close>

type_synonym f64_value = "real option"

definition rounding :: "(real \<Rightarrow> real) \<Rightarrow> bool" where
  "rounding rnd \<longleftrightarrow> mono rnd \<and> (\<forall>n \<le> 2 ^ 53. rnd (real n) = real n)"

definition f_of :: "(real \<Rightarrow> real) \<Rightarrow> nat \<Rightarrow> f64_value" where
  "f_of rnd n = Some (rnd (real n))"

definition f_div :: "(real \<Rightarrow> real) \<Rightarrow> f64_value \<Rightarrow> f64_value \<Rightarrow> f64_value" where
  "f_div rnd a b =
     (case (a, b) of
        (Some x, Some y) \<Rightarrow> if y = 0 then None else Some (rnd (x / y))
      | _ \<Rightarrow> None)"

definition f_lift :: "(real \<Rightarrow> real) \<Rightarrow> (real \<Rightarrow> real \<Rightarrow> real) \<Rightarrow> f64_value \<Rightarrow> f64_value \<Rightarrow> f64_value" where
  "f_lift rnd f a b = (case (a, b) of (Some x, Some y) \<Rightarrow> Some (rnd (f x y)) | _ \<Rightarrow> None)"

definition f_ceil :: "f64_value \<Rightarrow> f64_value" where
  "f_ceil a = map_option (\<lambda>x. of_int \<lceil>x\<rceil>) a"

definition f_pos :: "f64_value \<Rightarrow> bool" where
  "f_pos a = (case a of None \<Rightarrow> False | Some x \<Rightarrow> 0 < x)"

abbreviation f_const :: "nat \<Rightarrow> f64_value" where
  "f_const n \<equiv> Some (real n)"

subsection \<open>The numbers\<close>

text \<open>\<open>if count > 0 { total / count as f64 } else { 0.0 }\<close>, the totals in milliseconds.\<close>

definition average :: "(real \<Rightarrow> real) \<Rightarrow> f64_value \<Rightarrow> u64 \<Rightarrow> f64_value" where
  "average rnd ms n = (if n > 0 then f_div rnd ms (f_of rnd (unat n)) else f_const 0)"

definition millis :: "(real \<Rightarrow> real) \<Rightarrow> metrics \<Rightarrow> counter \<Rightarrow> f64_value" where
  "millis rnd m c = f_div rnd (f_of rnd (unat (cell m c))) (f_const 1000)"

definition mega :: "(real \<Rightarrow> real) \<Rightarrow> f64_value \<Rightarrow> f64_value" where
  "mega rnd a = f_div rnd (f_div rnd a (f_const 1024)) (f_const 1024)"

text \<open>\<open>Duration::as_secs_f64\<close>, and the uptime: \<open>elapsed\<close> of \<open>start_time\<close>, or of
  now; both are here nanoseconds.\<close>

definition as_secs_f64 :: "(real \<Rightarrow> real) \<Rightarrow> nat \<Rightarrow> f64_value" where
  "as_secs_f64 rnd ns =
     f_lift rnd (+) (f_of rnd (ns div 10 ^ 9)) (f_div rnd (f_of rnd (ns mod 10 ^ 9)) (f_const (10 ^ 9)))"

definition uptime :: "nat \<Rightarrow> metrics \<Rightarrow> nat" where
  "uptime now m = (case start_time m of Some t \<Rightarrow> now - t | None \<Rightarrow> 0)"

record report =
  generated :: u64
  gen_time_total :: f64_value
  gen_avg :: f64_value
  gen_max :: f64_value
  biome_avg :: f64_value
  noise_avg :: f64_value
  surface_avg :: f64_value
  conv_avg :: f64_value
  ser_avg :: f64_value
  comp_avg :: f64_value
  loaded :: u64
  load_avg :: f64_value
  saved :: u64
  save_avg :: f64_value
  fuse_requests :: u64
  fuse_avg_latency :: f64_value
  fuse_overhead :: f64_value
  fuse_throughput :: f64_value
  compression_ratio :: f64_value
  avg_raw_kb :: f64_value
  avg_comp_kb :: f64_value
  hits :: u64
  misses :: u64
  hit_rate :: f64_value
  est_mca_mb :: f64_value
  db_size_mb :: f64_value
  efficiency :: f64_value

definition numbers :: "(real \<Rightarrow> real) \<Rightarrow> nat \<Rightarrow> metrics \<Rightarrow> report" where
  "numbers rnd now m =
     (let generated = cell m Total_chunks_generated;
          gen_time_total = millis rnd m Total_generation_time_us;
          gen_avg = average rnd gen_time_total generated;
          avg_of = (\<lambda>c. average rnd (millis rnd m c) generated);
          hits = cell m Total_cache_hits;
          misses = cell m Total_cache_misses;
          total_requests = hits + misses;
          hit_rate = (if total_requests > 0
             then f_lift rnd (*) (f_div rnd (f_of rnd (unat hits)) (f_of rnd (unat total_requests))) (f_const 100)
             else f_const 0);
          loaded = cell m Total_chunks_loaded;
          load_avg = average rnd (millis rnd m Total_load_time_us) loaded;
          saved = cell m Total_chunks_saved;
          save_avg = average rnd (millis rnd m Total_save_time_us) saved;
          fuse_requests = cell m Total_fuse_read_count;
          fuse_avg_latency = average rnd (millis rnd m Total_fuse_read_time_us) fuse_requests;
          fuse_overhead = f_lift rnd (-) fuse_avg_latency gen_avg;
          secs = as_secs_f64 rnd (uptime now m);
          fuse_throughput = (if f_pos secs
             then f_div rnd (mega rnd (f_of rnd (unat (cell m Total_fuse_bytes_sent)))) secs else f_const 0);
          gen_raw = f_of rnd (unat (cell m Total_gen_bytes_raw));
          gen_comp = f_of rnd (unat (cell m Total_gen_bytes_compressed));
          avg_raw_kb = (if generated > 0
             then f_div rnd (f_div rnd gen_raw (f_of rnd (unat generated))) (f_const 1024) else f_const 0);
          avg_comp_kb = (if generated > 0
             then f_div rnd (f_div rnd gen_comp (f_of rnd (unat generated))) (f_const 1024) else f_const 0);
          compression_ratio = (if cell m Total_gen_bytes_compressed > 0 then f_div rnd gen_raw gen_comp else f_const 0);
          db_size_mb = mega rnd (f_of rnd (unat (cell m Total_db_size_bytes)));
          total_chunks = generated + loaded;
          est_mca_mb = (if total_chunks > 0 then
               let regions = f_ceil (f_div rnd (f_of rnd (unat total_chunks)) (f_const 1024));
                   raw_size = f_lift rnd (+) (f_lift rnd (*) regions (f_const 8192))
                     (f_lift rnd (*) (f_of rnd (unat total_chunks)) (f_const 4096))
               in mega rnd raw_size
             else f_const 0)
      in \<lparr>generated = generated, gen_time_total = gen_time_total, gen_avg = gen_avg,
          gen_max = millis rnd m Max_generation_time_us,
          biome_avg = avg_of Total_generation_biomes_us, noise_avg = avg_of Total_generation_noise_us,
          surface_avg = avg_of Total_generation_surface_us, conv_avg = avg_of Total_generation_conversion_us,
          ser_avg = avg_of Total_serialization_us, comp_avg = avg_of Total_compression_us,
          loaded = loaded, load_avg = load_avg, saved = saved, save_avg = save_avg,
          fuse_requests = fuse_requests, fuse_avg_latency = fuse_avg_latency, fuse_overhead = fuse_overhead,
          fuse_throughput = fuse_throughput, compression_ratio = compression_ratio,
          avg_raw_kb = avg_raw_kb, avg_comp_kb = avg_comp_kb, hits = hits, misses = misses, hit_rate = hit_rate,
          est_mca_mb = est_mca_mb, db_size_mb = db_size_mb,
          efficiency = (if f_pos db_size_mb then f_div rnd est_mca_mb db_size_mb else f_const 0)\<rparr>)"

subsection \<open>The text\<close>

text \<open>\<open>{}\<close> of an integer and \<open>{:.k}\<close> of an \<open>f64\<close>: the exact value, rounded half to even at the
  \<open>k\<close>-th decimal. The format string's line continuations drop the blanks a line starts with, so
  the breakdown is not indented.\<close>

fun show_nat :: "nat \<Rightarrow> string" where
  "show_nat n = (if n < 10 then [char_of (48 + n)] else show_nat (n div 10) @ [char_of (48 + n mod 10)])"

declare show_nat.simps [simp del]

definition half_even :: "real \<Rightarrow> int" where
  "half_even x =
     (let f = \<lfloor>x\<rfloor>; d = x - of_int f
      in if d < 1 / 2 then f else if d > 1 / 2 then f + 1 else if even f then f else f + 1)"

definition fixed :: "nat \<Rightarrow> f64_value \<Rightarrow> string" where
  "fixed k v =
     (case v of
        None \<Rightarrow> ''NaN''
      | Some x \<Rightarrow>
          let n = nat (half_even (\<bar>x\<bar> * 10 ^ k)); digits = show_nat (n mod 10 ^ k)
          in (if x < 0 then ''-'' else '''') @ show_nat (n div 10 ^ k) @ ''.'' @
             replicate (k - length digits) (CHR ''0'') @ digits)"

abbreviation nl :: string where
  "nl \<equiv> [CHR 0x0A]"

definition report_text :: "string \<Rightarrow> string \<Rightarrow> report \<Rightarrow> string" where
  "report_text config duration r =
     ''HopperMC Benchmark Report'' @ nl @
     ''========================='' @ nl @
     ''Configuration: '' @ config @ nl @
     ''Session Duration: '' @ duration @ nl @ nl @
     ''[Generation]'' @ nl @
     ''Chunks Generated: '' @ show_nat (unat (generated r)) @ nl @
     ''Total Time: '' @ fixed 2 (gen_time_total r) @ '' ms'' @ nl @
     ''Avg Time: '' @ fixed 2 (gen_avg r) @ '' ms/chunk'' @ nl @
     ''Max Time: '' @ fixed 2 (gen_max r) @ '' ms'' @ nl @
     ''- Logic Breakdown:'' @ nl @
     ''* Biomes: '' @ fixed 2 (biome_avg r) @ '' ms'' @ nl @
     ''* Noise (Terrain): '' @ fixed 2 (noise_avg r) @ '' ms'' @ nl @
     ''* Surface Rules: '' @ fixed 2 (surface_avg r) @ '' ms'' @ nl @
     ''* Data Conversion: '' @ fixed 2 (conv_avg r) @ '' ms'' @ nl @
     ''- Serialization: '' @ fixed 2 (ser_avg r) @ '' ms/chunk'' @ nl @
     ''- Compression: '' @ fixed 2 (comp_avg r) @ '' ms/chunk'' @ nl @ nl @
     ''[Storage Read]'' @ nl @
     ''Chunks Loaded: '' @ show_nat (unat (loaded r)) @ nl @
     ''Avg Time: '' @ fixed 2 (load_avg r) @ '' ms/chunk'' @ nl @ nl @
     ''[Storage Write]'' @ nl @
     ''Chunks Saved: '' @ show_nat (unat (saved r)) @ nl @
     ''Avg Time: '' @ fixed 2 (save_avg r) @ '' ms/chunk'' @ nl @ nl @
     ''[FUSE Filesystem]'' @ nl @
     ''Requests: '' @ show_nat (unat (fuse_requests r)) @ nl @
     ''Avg Latency: '' @ fixed 2 (fuse_avg_latency r) @ '' ms'' @ nl @
     ''Overhead: '' @ fixed 2 (fuse_overhead r) @ '' ms/req (Latency - Generation)'' @ nl @
     ''Throughput: '' @ fixed 2 (fuse_throughput r) @ '' MB/s'' @ nl @
     ''Compression Ratio: '' @ fixed 2 (compression_ratio r) @ ''x ('' @ fixed 1 (avg_raw_kb r) @ '' KB -> '' @
       fixed 1 (avg_comp_kb r) @ '' KB)'' @ nl @ nl @
     ''[Cache]'' @ nl @
     ''Hits: '' @ show_nat (unat (hits r)) @ nl @
     ''Misses: '' @ show_nat (unat (misses r)) @ nl @
     ''Hit Rate: '' @ fixed 1 (hit_rate r) @ ''%'' @ nl @ nl @
     ''[World Weight]'' @ nl @
     ''Estimated MCA Size: '' @ fixed 2 (est_mca_mb r) @ '' MB (standard .mca files)'' @ nl @
     ''Actual DB Size: '' @ fixed 2 (db_size_mb r) @ '' MB (PostgreSQL table)'' @ nl @
     ''Efficiency: '' @ fixed 1 (efficiency r) @ ''x (DB vs MCA)'' @ nl"

definition generate_report :: "(real \<Rightarrow> real) \<Rightarrow> (nat \<Rightarrow> string) \<Rightarrow> nat \<Rightarrow> metrics \<Rightarrow> string" where
  "generate_report rnd show_duration now m =
     report_text (config_summary m) (show_duration (uptime now m)) (numbers rnd now m)"

subsection \<open>Every number is finite\<close>

lemma roundingD:
  assumes "rounding rnd"
  shows "x \<le> y \<Longrightarrow> rnd x \<le> rnd y" and "n \<le> 2 ^ 53 \<Longrightarrow> rnd (real n) = real n"
  using assms by (auto simp: rounding_def mono_def)

lemma round_nat_pos:
  assumes "rounding rnd" and "0 < n"
  shows "1 \<le> rnd (real n)"
proof -
  have "rnd (real 1) \<le> rnd (real n)" using assms(2) by (intro roundingD(1) [OF assms(1)]) simp
  moreover have "rnd (real 1) = real 1" by (rule roundingD(2) [OF assms(1)]) simp
  ultimately show ?thesis by simp
qed

lemma round_nonneg:
  assumes "rounding rnd" and "0 \<le> x"
  shows "0 \<le> rnd x"
  using roundingD(1) [OF assms] roundingD(2) [OF assms(1), of 0] by simp

definition finite_val :: "f64_value \<Rightarrow> bool" where
  "finite_val v \<longleftrightarrow> v \<noteq> None"

named_theorems finite_intros

lemma finite_of [finite_intros]: "finite_val (f_of rnd n)" "finite_val (Some x)"
  by (simp_all add: finite_val_def f_of_def)

lemma finite_lift [finite_intros]: "finite_val a \<Longrightarrow> finite_val b \<Longrightarrow> finite_val (f_lift rnd f a b)"
  by (auto simp: finite_val_def f_lift_def)

lemma finite_ceil [finite_intros]: "finite_val a \<Longrightarrow> finite_val (f_ceil a)"
  by (simp add: finite_val_def f_ceil_def)

lemma finite_div_const [finite_intros]: "finite_val a \<Longrightarrow> x \<noteq> 0 \<Longrightarrow> finite_val (f_div rnd a (Some x))"
  by (auto simp: finite_val_def f_div_def)

lemma finite_div_count:
  "rounding rnd \<Longrightarrow> finite_val a \<Longrightarrow> 0 < n \<Longrightarrow> finite_val (f_div rnd a (f_of rnd n))"
  using round_nat_pos [of rnd n] by (auto simp: finite_val_def f_div_def f_of_def)

lemma finite_div_pos: "finite_val a \<Longrightarrow> f_pos b \<Longrightarrow> finite_val (f_div rnd a b)"
  by (auto simp: finite_val_def f_div_def f_pos_def split: option.splits)

lemma finite_average:
  "rounding rnd \<Longrightarrow> finite_val a \<Longrightarrow> finite_val (average rnd a n)"
  by (auto simp: average_def word_less_nat_alt intro: finite_div_count finite_of)

lemma finite_millis [finite_intros]: "finite_val (millis rnd m c)"
  by (auto simp: millis_def intro!: finite_intros)

lemma finite_mega [finite_intros]: "finite_val a \<Longrightarrow> finite_val (mega rnd a)"
  by (auto simp: mega_def intro!: finite_intros)

text \<open>All the numbers of a report.\<close>

definition report_values :: "report \<Rightarrow> f64_value list" where
  "report_values r =
     [gen_time_total r, gen_avg r, gen_max r, biome_avg r, noise_avg r, surface_avg r, conv_avg r, ser_avg r,
      comp_avg r, load_avg r, save_avg r, fuse_avg_latency r, fuse_overhead r, fuse_throughput r,
      compression_ratio r, avg_raw_kb r, avg_comp_kb r, hit_rate r, est_mca_mb r, db_size_mb r, efficiency r]"

lemma numbers_finite:
  assumes r: "rounding rnd"
  shows "list_all finite_val (report_values (numbers rnd now m))"
  unfolding report_values_def numbers_def Let_def
  by (simp add: word_less_nat_alt finite_average [OF r] finite_div_count [OF r] finite_div_pos finite_intros)

lemma hit_rate_bounds:
  assumes r: "rounding rnd" and nowrap: "unat h + unat n < 2 ^ 64" and pos: "0 < h + n"
  shows "\<exists>x. f_lift rnd (*) (f_div rnd (f_of rnd (unat (h :: u64))) (f_of rnd (unat (h + n)))) (f_const 100) = Some x
    \<and> 0 \<le> x \<and> x \<le> 100"
proof -
  let ?t = "unat (h + n)" and ?h = "unat h"
  have t: "?t = unat h + unat n" using nowrap by (simp add: unat_word_ariths)
  have "0 < ?t" using pos by (simp add: word_less_nat_alt)
  then have den: "1 \<le> rnd (real ?t)" by (rule round_nat_pos [OF r])
  have le: "rnd (real ?h) \<le> rnd (real ?t)" by (rule roundingD(1) [OF r]) (simp only: t of_nat_le_iff le_add1)
  have nonneg: "0 \<le> rnd (real ?h)" by (rule round_nonneg [OF r of_nat_0_le_iff])
  let ?q = "rnd (rnd (real ?h) / rnd (real ?t))"
  have "rnd (rnd (real ?h) / rnd (real ?t)) \<le> rnd (real 1)"
    using le den by (intro roundingD(1) [OF r]) simp
  then have q1: "?q \<le> 1" using roundingD(2) [OF r, of 1] by simp
  have q0: "0 \<le> ?q" using nonneg den by (intro round_nonneg [OF r]) simp
  have "rnd (?q * 100) \<le> rnd (real 100)" using q1 by (intro roundingD(1) [OF r]) simp
  then have "rnd (?q * 100) \<le> 100" using roundingD(2) [OF r, of 100] by simp
  moreover have "0 \<le> rnd (?q * 100)" using q0 by (intro round_nonneg [OF r]) simp
  ultimately show ?thesis using den by (simp add: f_lift_def f_div_def f_of_def)
qed

subsection \<open>Properties\<close>

text \<open>C38: whatever the counters hold, no number of the report is a NaN or an infinity: every division
  is guarded, also against uptimes of zero and counts that wrapped to zero. The hit rate is a
  percentage as long as hits and misses together do not wrap.\<close>

theorem report_finite:
  assumes "rounding rnd"
  shows "list_all finite_val (report_values (numbers rnd now m)) \<and>
    (unat (cell m Total_cache_hits) + unat (cell m Total_cache_misses) < 2 ^ 64 \<longrightarrow>
      (\<exists>x. hit_rate (numbers rnd now m) = Some x \<and> 0 \<le> x \<and> x \<le> 100))"
proof (intro conjI impI numbers_finite [OF assms])
  assume "unat (cell m Total_cache_hits) + unat (cell m Total_cache_misses) < 2 ^ 64"
  from hit_rate_bounds [OF assms this]
  show "\<exists>x. hit_rate (numbers rnd now m) = Some x \<and> 0 \<le> x \<and> x \<le> 100"
    by (simp add: numbers_def Let_def)
qed

theorem report_finite_witness:
  "let m = run (record_cache_hit @ record_cache_miss @ record_fuse_request 7 4096) (metrics_new 5 ''demo'')
   in list_all finite_val (report_values (numbers (\<lambda>x. x) 5 m)) \<and> hit_rate (numbers (\<lambda>x. x) 5 m) = Some 50"
proof -
  let ?m = "run (record_cache_hit @ record_cache_miss @ record_fuse_request 7 4096) (metrics_new 5 ''demo'')"
  have "rounding (\<lambda>x. x)" by (simp add: rounding_def mono_def)
  note finite = report_finite [OF this, of 5 ?m]
  have cells: "cell ?m Total_cache_hits = 1" "cell ?m Total_cache_misses = 1"
    by (simp_all add: run_def metrics_new_def record_defs)
  have "hit_rate (numbers (\<lambda>x. x) 5 ?m) = Some 50"
    by (simp add: numbers_def Let_def cells f_lift_def f_div_def f_of_def)
  then show ?thesis using finite unfolding Let_def by blast
qed

end
