(* ===== verification/Storage.thy ===== *)
theory Storage
  imports Nbt_Json
begin

text \<open>
  \<open>hoppermc-storage/src/lib.rs\<close> and \<open>postgres.rs\<close>: the trait \<open>ChunkStorage\<close> and its implementation
  over PostgreSQL. The database and its client (deadpool, tokio-postgres) are not in the
  repository: \<open>pg_client\<close> holds the calls the source makes, over an arbitrary database state
  \<open>'db\<close>, and each may fail. A statement's text is a constructor of \<open>stmt\<close>. What the code relies
  on is \<open>pg_ok\<close>: an upsert that succeeds binds the key to the value (through JSONB's own
  normalisation \<open>jb\<close>), one that fails did or did not, a select returns the bound value.

  The locale \<open>chunk_storage\<close> is the contract of the trait; the three behaviours of
  \<open>PostgresStorage\<close> (raw, JSONB, not implemented) are interpretations of it.
\<close>

subsection \<open>The trait\<close>

datatype storage_mode = PgRaw | PgJsonb | Hybrid | Weightless

datatype storage_error =
    No_pool | No_connection | Init_failed | Insert_failed | Query_failed
  | Save_not_implemented storage_mode
  | Row_type_panic

text \<open>\<open>Row_type_panic\<close> is no error the code sees but the panic of \<open>row.get(0)\<close>, which ends the process:
  the virtual file notes it in \<open>aborted\<close>.\<close>

record 's storage_ops =
  save_chunk :: "i32 \<Rightarrow> i32 \<Rightarrow> bytes \<Rightarrow> 's \<Rightarrow> (storage_error + unit) \<times> 's"
  load_chunk :: "i32 \<Rightarrow> i32 \<Rightarrow> 's \<Rightarrow> (storage_error + bytes option) \<times> 's"
  get_total_size :: "'s \<Rightarrow> (storage_error + u64) \<times> 's"

text \<open>The trait's default for \<open>get_total_size\<close>.\<close>

definition default_total_size :: "'s \<Rightarrow> (storage_error + u64) \<times> 's" where
  "default_total_size s = (Inr 0, s)"

subsection \<open>The database client\<close>

datatype table = Chunks_raw | Chunks_jsonb

datatype stmt = Create_table table | Upsert table | Select_data table | Relation_size table

datatype 'n column = Bytea bytes | Jsonb "'n json" | Bigint i64

record ('db, 'n) pg_client =
  pool_get :: "'db \<Rightarrow> bool \<times> 'db"
  pg_batch_execute :: "stmt \<Rightarrow> 'db \<Rightarrow> bool \<times> 'db"
  pg_execute :: "stmt \<Rightarrow> i32 \<Rightarrow> i32 \<Rightarrow> 'n column \<Rightarrow> 'db \<Rightarrow> bool \<times> 'db"
  pg_query :: "stmt \<Rightarrow> i32 \<Rightarrow> i32 \<Rightarrow> 'db \<Rightarrow> 'n column list option \<times> 'db"
  pg_query_opt :: "stmt \<Rightarrow> i32 \<Rightarrow> i32 \<Rightarrow> 'db \<Rightarrow> 'n column option option \<times> 'db"
  pg_query_one :: "stmt \<Rightarrow> 'db \<Rightarrow> 'n column option \<times> 'db"

record ('db, 'n) postgres_storage =
  pool :: "('db, 'n) pg_client"
  mode :: storage_mode
  db :: 'db

text \<open>\<open>self.pool.get().await.context(...)?\<close> in front of the rest of a method, and one call on the
  connection.\<close>

definition with_client ::
    "('db, 'n) postgres_storage \<Rightarrow>
     (('db, 'n) postgres_storage \<Rightarrow> (storage_error + 'a) \<times> ('db, 'n) postgres_storage) \<Rightarrow>
     (storage_error + 'a) \<times> ('db, 'n) postgres_storage" where
  "with_client s k =
     (case pool_get (pool s) (db s) of
        (ok, d) \<Rightarrow> if ok then k (s\<lparr>db := d\<rparr>) else (Inl No_connection, s\<lparr>db := d\<rparr>))"

definition call ::
    "('db \<Rightarrow> 'r \<times> 'db) \<Rightarrow> ('db, 'n) postgres_storage \<Rightarrow> 'r \<times> ('db, 'n) postgres_storage" where
  "call f s = (case f (db s) of (r, d) \<Rightarrow> (r, s\<lparr>db := d\<rparr>))"

definition done_or :: "storage_error \<Rightarrow> bool \<Rightarrow> storage_error + unit" where
  "done_or e ok = (if ok then Inr () else Inl e)"

subsection \<open>\<open>PostgresStorage\<close>\<close>

definition init_schema ::
    "('db, 'n) postgres_storage \<Rightarrow> (storage_error + unit) \<times> ('db, 'n) postgres_storage" where
  "init_schema s = with_client s (\<lambda>s.
     case mode s of
       PgRaw \<Rightarrow> map_prod (done_or Init_failed) id
         (call (pg_batch_execute (pool s) (Create_table Chunks_raw)) s)
     | PgJsonb \<Rightarrow> map_prod (done_or Init_failed) id
         (call (pg_batch_execute (pool s) (Create_table Chunks_jsonb)) s)
     | _ \<Rightarrow> (Inr (), s))"

text \<open>\<open>PostgresStorage::new\<close>; the first argument is the pool \<open>create_pool\<close> made, if it did: it fails on
  a bad configuration only, as it opens no connection. A database that cannot be reached shows in
  \<open>init_schema\<close>.\<close>

definition postgres_new ::
    "('db, 'n) pg_client option \<Rightarrow> storage_mode \<Rightarrow> 'db \<Rightarrow>
     (storage_error + ('db, 'n) postgres_storage) \<times> 'db" where
  "postgres_new created m d =
     (case created of
        None \<Rightarrow> (Inl No_pool, d)
      | Some p \<Rightarrow>
          (case init_schema \<lparr>pool = p, mode = m, db = d\<rparr> of
             (Inl e, s) \<Rightarrow> (Inl e, db s)
           | (Inr (), s) \<Rightarrow> (Inr s, db s)))"

definition pg_save_chunk ::
    "nbt_lib \<Rightarrow> 'n num_lib \<Rightarrow> i32 \<Rightarrow> i32 \<Rightarrow> bytes \<Rightarrow> ('db, 'n) postgres_storage \<Rightarrow>
     (storage_error + unit) \<times> ('db, 'n) postgres_storage" where
  "pg_save_chunk L N x z data s = with_client s (\<lambda>s.
     case mode s of
       PgRaw \<Rightarrow> map_prod (done_or Insert_failed) id
         (call (pg_execute (pool s) (Upsert Chunks_raw) x z (Bytea data)) s)
     | PgJsonb \<Rightarrow>
         (case nbt_from_bytes L data of
            Some nbt_value \<Rightarrow>
              let json_value = nbt_to_json N nbt_value
              in map_prod (done_or Insert_failed) id
                   (call (pg_execute (pool s) (Upsert Chunks_jsonb) x z (Jsonb json_value)) s)
          | None \<Rightarrow> (Inr (), s))
     | m \<Rightarrow> (Inl (Save_not_implemented m), s))"

definition pg_load_chunk ::
    "nbt_lib \<Rightarrow> 'n num_lib \<Rightarrow> i32 \<Rightarrow> i32 \<Rightarrow> ('db, 'n) postgres_storage \<Rightarrow>
     (storage_error + bytes option) \<times> ('db, 'n) postgres_storage" where
  "pg_load_chunk L N x z s = with_client s (\<lambda>s.
     case mode s of
       PgRaw \<Rightarrow>
         (case call (pg_query (pool s) (Select_data Chunks_raw) x z) s of
            (None, s) \<Rightarrow> (Inl Query_failed, s)
          | (Some [], s) \<Rightarrow> (Inr None, s)
          | (Some (Bytea data # _), s) \<Rightarrow> (Inr (Some data), s)
          | (Some _, s) \<Rightarrow> (Inl Row_type_panic, s))
     | PgJsonb \<Rightarrow>
         (case call (pg_query_opt (pool s) (Select_data Chunks_jsonb) x z) s of
            (None, s) \<Rightarrow> (Inl Query_failed, s)
          | (Some None, s) \<Rightarrow> (Inr None, s)
          | (Some (Some (Jsonb json_value)), s) \<Rightarrow>
              (case nbt_to_bytes L (json_to_nbt N json_value) of
                 Some nbt_data \<Rightarrow> (Inr (Some nbt_data), s)
               | None \<Rightarrow> (Inr None, s))
          | (Some (Some _), s) \<Rightarrow> (Inl Row_type_panic, s))
     | _ \<Rightarrow> (Inr None, s))"

definition relation_size ::
    "table \<Rightarrow> ('db, 'n) postgres_storage \<Rightarrow> (storage_error + u64) \<times> ('db, 'n) postgres_storage" where
  "relation_size t s =
     (case call (pg_query_one (pool s) (Relation_size t)) s of
        (None, s) \<Rightarrow> (Inl Query_failed, s)
      | (Some (Bigint bytes), s) \<Rightarrow> (Inr bytes, s)
      | (Some _, s) \<Rightarrow> (Inl Row_type_panic, s))"

definition pg_get_total_size ::
    "('db, 'n) postgres_storage \<Rightarrow> (storage_error + u64) \<times> ('db, 'n) postgres_storage" where
  "pg_get_total_size s = with_client s (\<lambda>s.
     case mode s of
       PgRaw \<Rightarrow> relation_size Chunks_raw s
     | PgJsonb \<Rightarrow> relation_size Chunks_jsonb s
     | _ \<Rightarrow> (Inr 0, s))"

definition postgres_ops :: "nbt_lib \<Rightarrow> 'n num_lib \<Rightarrow> ('db, 'n) postgres_storage storage_ops" where
  "postgres_ops L N = \<lparr>save_chunk = pg_save_chunk L N, load_chunk = pg_load_chunk L N,
     get_total_size = pg_get_total_size\<rparr>"

subsection \<open>The contract of the trait\<close>

text \<open>
  \<open>contents\<close> is what loads return; \<open>effect d\<close> says what a save of \<open>d\<close> that reports success does
  to the chunk's entry: \<open>None\<close> nothing at all, \<open>Some r\<close> make \<open>r\<close> its contents.
\<close>

definition apply_effect ::
    "bytes option option \<Rightarrow> chunk_pos \<Rightarrow> (chunk_pos \<rightharpoonup> bytes) \<Rightarrow> (chunk_pos \<rightharpoonup> bytes)" where
  "apply_effect e p m = (case e of None \<Rightarrow> m | Some r \<Rightarrow> m(p := r))"

locale chunk_storage =
  fixes ops :: "'s storage_ops"
    and contents :: "'s \<Rightarrow> chunk_pos \<rightharpoonup> bytes"
    and effect :: "bytes \<Rightarrow> bytes option option"
    and invar :: "'s \<Rightarrow> bool"
  assumes save_ok: "invar s \<Longrightarrow> save_chunk ops x z d s = (Inr u, s') \<Longrightarrow>
      contents s' = apply_effect (effect d) (x, z) (contents s)"
    and save_err: "invar s \<Longrightarrow> save_chunk ops x z d s = (Inl e, s') \<Longrightarrow>
      contents s' = contents s \<or> contents s' = apply_effect (effect d) (x, z) (contents s)"
    and load_ok: "invar s \<Longrightarrow> load_chunk ops x z s = (Inr r, s') \<Longrightarrow> r = contents s (x, z)"
    and load_frame: "invar s \<Longrightarrow> contents (snd (load_chunk ops x z s)) = contents s"
    and invar_save: "invar s \<Longrightarrow> invar (snd (save_chunk ops x z d s))"
    and invar_load: "invar s \<Longrightarrow> invar (snd (load_chunk ops x z s))"
begin

lemma save_elsewhere:
  assumes "invar s" and "save_chunk ops x z d s = (r, s')" and "p \<noteq> (x, z)"
  shows "contents s' p = contents s p"
proof -
  have "contents s' = contents s \<or> contents s' = apply_effect (effect d) (x, z) (contents s)"
  proof (cases r)
    case (Inl e)
    then show ?thesis using save_err [OF assms(1)] assms(2) by blast
  next
    case (Inr u)
    then show ?thesis using save_ok [OF assms(1)] assms(2) by blast
  qed
  then show ?thesis
    using assms(3) by (auto simp: apply_effect_def split: option.split)
qed

lemma read_your_write:
  assumes "invar s" and "save_chunk ops x z d s = (Inr u, s')"
    and "load_chunk ops x' z' s' = (Inr r, s'')"
  shows "r = apply_effect (effect d) (x, z) (contents s) (x', z')"
  using assms save_ok load_ok invar_save by (metis snd_conv)

text \<open>A run of saves, the state threaded through; the results are thrown away.\<close>

lemma saves_invar: "invar s \<Longrightarrow> invar (fold (\<lambda>((x, z), d) s. snd (save_chunk ops x z d s)) ws s)"
  by (induction ws arbitrary: s) (auto simp: invar_save)

lemma saves_elsewhere:
  "invar s \<Longrightarrow> p \<notin> fst ` set ws \<Longrightarrow>
     contents (fold (\<lambda>((x, z), d) s. snd (save_chunk ops x z d s)) ws s) p = contents s p"
proof (induction ws arbitrary: s)
  case (Cons w ws)
  obtain x z d where w: "w = ((x, z), d)" by (metis prod.exhaust)
  have "contents (snd (save_chunk ops x z d s)) p = contents s p"
    using Cons.prems by (simp add: w save_elsewhere [OF Cons.prems(1) prod.collapse [symmetric]])
  with Cons show ?case by (simp add: w invar_save)
qed simp

text \<open>The last save of a chunk wins, whatever is saved elsewhere afterwards.\<close>

lemma last_save_wins:
  assumes "invar s" and "save_chunk ops x z d s = (Inr u, s')" and "(x, z) \<notin> fst ` set ws"
    and "load_chunk ops x z (fold (\<lambda>((x, z), d) s. snd (save_chunk ops x z d s)) ws s') = (Inr r, s'')"
    and "effect d = Some v"
  shows "r = v"
proof -
  have "invar s'" using invar_save [OF assms(1), of x z d] assms(2) by simp
  then have "r = contents s' (x, z)"
    using load_ok [OF saves_invar assms(4)] saves_elsewhere [OF _ assms(3)] by simp
  with save_ok [OF assms(1,2)] assms(5) show ?thesis by (simp add: apply_effect_def)
qed

end

subsection \<open>What is relied on of PostgreSQL\<close>

text \<open>A view of the database state: the rows of each table. \<open>jb\<close> is what JSONB makes of a
  document.\<close>

type_synonym ('db, 'n) view = "'db \<Rightarrow> table \<Rightarrow> chunk_pos \<rightharpoonup> 'n column"

fun as_stored :: "('n json \<Rightarrow> 'n json) \<Rightarrow> 'n column \<Rightarrow> 'n column" where
  "as_stored jb (Jsonb j) = Jsonb (jb j)"
| "as_stored jb c = c"

definition upserted ::
    "('n json \<Rightarrow> 'n json) \<Rightarrow> table \<Rightarrow> chunk_pos \<Rightarrow> 'n column \<Rightarrow>
     (table \<Rightarrow> chunk_pos \<rightharpoonup> 'n column) \<Rightarrow> (table \<Rightarrow> chunk_pos \<rightharpoonup> 'n column)" where
  "upserted jb t p c v = v(t := (v t)(p \<mapsto> as_stored jb c))"

definition typed_rows :: "(table \<Rightarrow> chunk_pos \<rightharpoonup> 'n column) \<Rightarrow> bool" where
  "typed_rows v \<longleftrightarrow> (\<forall>p c. v Chunks_raw p = Some c \<longrightarrow> (\<exists>b. c = Bytea b)) \<and>
     (\<forall>p c. v Chunks_jsonb p = Some c \<longrightarrow> (\<exists>j. c = Jsonb j))"

definition pg_ok ::
    "('db, 'n) pg_client \<Rightarrow> ('n json \<Rightarrow> 'n json) \<Rightarrow> ('db, 'n) view \<Rightarrow> bool" where
  "pg_ok c jb view \<longleftrightarrow>
     (\<forall>d. view (snd (pool_get c d)) = view d) \<and>
     (\<forall>d. typed_rows (view d)) \<and>
     (\<forall>t d. view (snd (pg_batch_execute c (Create_table t) d)) = view d) \<and>
     (\<forall>t x z v d. fst (pg_execute c (Upsert t) x z v d) \<longrightarrow>
        view (snd (pg_execute c (Upsert t) x z v d)) = upserted jb t (x, z) v (view d)) \<and>
     (\<forall>t x z v d. view (snd (pg_execute c (Upsert t) x z v d)) \<in>
        {view d, upserted jb t (x, z) v (view d)}) \<and>
     (\<forall>t x z d. view (snd (pg_query c (Select_data t) x z d)) = view d \<and>
        fst (pg_query c (Select_data t) x z d) \<in>
          {None, Some (case view d t (x, z) of None \<Rightarrow> [] | Some v \<Rightarrow> [v])}) \<and>
     (\<forall>t x z d. view (snd (pg_query_opt c (Select_data t) x z d)) = view d \<and>
        fst (pg_query_opt c (Select_data t) x z d) \<in> {None, Some (view d t (x, z))})"

lemma pg_okD:
  assumes "pg_ok c jb view"
  shows "view (snd (pool_get c d)) = view d"
    and "typed_rows (view d)"
    and "view (snd (pg_batch_execute c (Create_table t) d)) = view d"
    and "fst (pg_execute c (Upsert t) x z v d) \<Longrightarrow>
      view (snd (pg_execute c (Upsert t) x z v d)) = upserted jb t (x, z) v (view d)"
    and "view (snd (pg_execute c (Upsert t) x z v d)) = view d \<or>
      view (snd (pg_execute c (Upsert t) x z v d)) = upserted jb t (x, z) v (view d)"
    and "view (snd (pg_query c (Select_data t) x z d)) = view d"
    and "fst (pg_query c (Select_data t) x z d) = Some rows \<Longrightarrow>
      rows = (case view d t (x, z) of None \<Rightarrow> [] | Some v \<Rightarrow> [v])"
    and "view (snd (pg_query_opt c (Select_data t) x z d)) = view d"
    and "fst (pg_query_opt c (Select_data t) x z d) = Some row \<Longrightarrow> row = view d t (x, z)"
proof -
  note P = assms [unfolded pg_ok_def]
  note Q = P [THEN conjunct2, THEN conjunct2, THEN conjunct2]
  note R = Q [THEN conjunct2, THEN conjunct2]
  show "view (snd (pool_get c d)) = view d"
    by (rule P [THEN conjunct1, rule_format])
  show "typed_rows (view d)"
    by (rule P [THEN conjunct2, THEN conjunct1, rule_format])
  show "view (snd (pg_batch_execute c (Create_table t) d)) = view d"
    by (rule P [THEN conjunct2, THEN conjunct2, THEN conjunct1, rule_format])
  show "fst (pg_execute c (Upsert t) x z v d) \<Longrightarrow>
      view (snd (pg_execute c (Upsert t) x z v d)) = upserted jb t (x, z) v (view d)"
    by (rule Q [THEN conjunct1, rule_format])
  show "view (snd (pg_execute c (Upsert t) x z v d)) = view d \<or>
      view (snd (pg_execute c (Upsert t) x z v d)) = upserted jb t (x, z) v (view d)"
    using Q [THEN conjunct2, THEN conjunct1, rule_format, of t x z v d] by blast
  show "view (snd (pg_query c (Select_data t) x z d)) = view d"
    using R [THEN conjunct1, rule_format, of t x z d] by blast
  show "fst (pg_query c (Select_data t) x z d) = Some rows \<Longrightarrow>
      rows = (case view d t (x, z) of None \<Rightarrow> [] | Some v \<Rightarrow> [v])"
    using R [THEN conjunct1, rule_format, of t x z d] by simp
  show "view (snd (pg_query_opt c (Select_data t) x z d)) = view d"
    using R [THEN conjunct2, rule_format, of t x z d] by blast
  show "fst (pg_query_opt c (Select_data t) x z d) = Some row \<Longrightarrow> row = view d t (x, z)"
    using R [THEN conjunct2, rule_format, of t x z d] by simp
qed

subsection \<open>\<open>PostgresStorage\<close> fulfils the contract\<close>

definition raw_contents :: "('db, 'n) view \<Rightarrow> ('db, 'n) postgres_storage \<Rightarrow> chunk_pos \<rightharpoonup> bytes" where
  "raw_contents view s p =
     (case view (db s) Chunks_raw p of Some (Bytea b) \<Rightarrow> Some b | _ \<Rightarrow> None)"

definition jsonb_contents ::
    "nbt_lib \<Rightarrow> 'n num_lib \<Rightarrow> ('db, 'n) view \<Rightarrow> ('db, 'n) postgres_storage \<Rightarrow> chunk_pos \<rightharpoonup> bytes" where
  "jsonb_contents L N view s p =
     (case view (db s) Chunks_jsonb p of
        Some (Jsonb j) \<Rightarrow> nbt_to_bytes L (json_to_nbt N j)
      | _ \<Rightarrow> None)"

definition jsonb_effect ::
    "nbt_lib \<Rightarrow> 'n num_lib \<Rightarrow> ('n json \<Rightarrow> 'n json) \<Rightarrow> bytes \<Rightarrow> bytes option option" where
  "jsonb_effect L N jb d =
     map_option (\<lambda>v. nbt_to_bytes L (json_to_nbt N (jb (nbt_to_json N v)))) (nbt_from_bytes L d)"

definition lawful ::
    "storage_mode \<Rightarrow> ('n json \<Rightarrow> 'n json) \<Rightarrow> ('db, 'n) view \<Rightarrow> ('db, 'n) postgres_storage \<Rightarrow> bool" where
  "lawful m jb view s \<longleftrightarrow> pg_ok (pool s) jb view \<and> mode s = m"

text \<open>Symbolic evaluation of the methods: each call's outcome is named by its two components.\<close>

lemmas pg_eval = with_client_def call_def case_prod_beta postgres_ops_def

lemma upserted_contents:
  "view (db s') = upserted jb Chunks_raw p (Bytea d) (view (db s)) \<Longrightarrow>
     raw_contents view s' = (raw_contents view s)(p \<mapsto> d)"
  "view (db s') = upserted jb Chunks_jsonb p (Jsonb j) (view (db s)) \<Longrightarrow>
     jsonb_contents L N view s' = (jsonb_contents L N view s)(p := nbt_to_bytes L (json_to_nbt N (jb j)))"
  by (auto simp: fun_eq_iff upserted_def raw_contents_def jsonb_contents_def)

lemma same_view_contents:
  "view (db s') = view (db s) \<Longrightarrow> raw_contents view s' = raw_contents view s"
  "view (db s') = view (db s) \<Longrightarrow> jsonb_contents L N view s' = jsonb_contents L N view s"
  by (auto simp: fun_eq_iff raw_contents_def jsonb_contents_def)

lemma methods_keep_pool:
  "pool (snd (pg_save_chunk L N x z d s)) = pool s" "mode (snd (pg_save_chunk L N x z d s)) = mode s"
  "pool (snd (pg_load_chunk L N x z s)) = pool s" "mode (snd (pg_load_chunk L N x z s)) = mode s"
  by (simp_all add: pg_save_chunk_def pg_load_chunk_def pg_eval Let_def
      split: storage_mode.split option.split column.split list.split)

lemma methods_keep_lawful:
  "lawful m jb view s \<Longrightarrow> lawful m jb view (snd (pg_save_chunk L N x z d s))"
  "lawful m jb view s \<Longrightarrow> lawful m jb view (snd (pg_load_chunk L N x z s))"
  by (simp_all add: lawful_def methods_keep_pool)

lemma load_view:
  "pg_ok (pool s) jb view \<Longrightarrow> view (db (snd (pg_load_chunk L N x z s))) = view (db s)"
  by (simp add: pg_load_chunk_def pg_eval pg_okD(1,6,8)
      split: storage_mode.split option.split column.split list.split)

text \<open>The effect of one save on the rows, for the two modes that store.\<close>

lemma raw_save_view:
  assumes "lawful PgRaw jb view s" and "pg_save_chunk L N x z d s = (r, s')"
  shows "(r = Inr () \<longrightarrow> view (db s') = upserted jb Chunks_raw (x, z) (Bytea d) (view (db s))) \<and>
    (view (db s') = view (db s) \<or>
     view (db s') = upserted jb Chunks_raw (x, z) (Bytea d) (view (db s)))"
proof -
  have ok: "pg_ok (pool s) jb view" and m: "mode s = PgRaw"
    using assms(1) by (simp_all add: lawful_def)
  let ?d = "snd (pool_get (pool s) (db s))"
  show ?thesis
    using assms(2) pg_okD(4) [OF ok, of Chunks_raw x z "Bytea d" ?d]
      pg_okD(5) [OF ok, of Chunks_raw x z "Bytea d" ?d] pg_okD(1) [OF ok, of "db s"]
    by (auto simp: pg_save_chunk_def pg_eval done_or_def m split: if_splits)
qed

lemma jsonb_save_view:
  assumes "lawful PgJsonb jb view s" and "pg_save_chunk L N x z d s = (r, s')"
    and "nbt_from_bytes L d = Some v"
  shows "(r = Inr () \<longrightarrow>
      view (db s') = upserted jb Chunks_jsonb (x, z) (Jsonb (nbt_to_json N v)) (view (db s))) \<and>
    (view (db s') = view (db s) \<or>
     view (db s') = upserted jb Chunks_jsonb (x, z) (Jsonb (nbt_to_json N v)) (view (db s)))"
proof -
  have ok: "pg_ok (pool s) jb view" and m: "mode s = PgJsonb"
    using assms(1) by (simp_all add: lawful_def)
  let ?d = "snd (pool_get (pool s) (db s))" and ?c = "Jsonb (nbt_to_json N v)"
  show ?thesis
    using assms(2,3) pg_okD(4) [OF ok, of Chunks_jsonb x z ?c ?d]
      pg_okD(5) [OF ok, of Chunks_jsonb x z ?c ?d] pg_okD(1) [OF ok, of "db s"]
    by (auto simp: pg_save_chunk_def pg_eval done_or_def m Let_def split: if_splits)
qed

lemma jsonb_save_unparsed:
  assumes "lawful PgJsonb jb view s" and "pg_save_chunk L N x z d s = (r, s')"
    and "nbt_from_bytes L d = None"
  shows "view (db s') = view (db s)"
  using assms pg_okD(1) [of "pool s" jb view "db s"]
  by (auto simp: lawful_def pg_save_chunk_def pg_eval split: if_splits)

lemma raw_load_result:
  assumes "lawful PgRaw jb view s" and "pg_load_chunk L N x z s = (Inr r, s')"
  shows "r = raw_contents view s (x, z)"
proof -
  have ok: "pg_ok (pool s) jb view" and m: "mode s = PgRaw"
    using assms(1) by (simp_all add: lawful_def)
  let ?d = "snd (pool_get (pool s) (db s))"
  let ?q = "pg_query (pool s) (Select_data Chunks_raw) x z ?d"
  note load = assms(2) [unfolded pg_load_chunk_def]
  have got: "fst (pool_get (pool s) (db s))"
    using load by (simp add: pg_eval split: if_split_asm)
  obtain rows where q: "fst ?q = Some rows"
    using load by (cases "fst ?q") (simp_all add: pg_eval m got)
  have rows: "rows = (case view (db s) Chunks_raw (x, z) of None \<Rightarrow> [] | Some v \<Rightarrow> [v])"
    using pg_okD(7) [OF ok q] by (simp add: pg_okD(1) [OF ok])
  show ?thesis
  proof (cases "view (db s) Chunks_raw (x, z)")
    case None
    then show ?thesis using load q rows by (simp add: pg_eval m got raw_contents_def)
  next
    case (Some c)
    then obtain b where "c = Bytea b"
      using pg_okD(2) [OF ok, of "db s"] unfolding typed_rows_def by blast
    then show ?thesis using load q rows Some by (simp add: pg_eval m got raw_contents_def)
  qed
qed

lemma jsonb_load_result:
  assumes "lawful PgJsonb jb view s" and "pg_load_chunk L N x z s = (Inr r, s')"
  shows "r = jsonb_contents L N view s (x, z)"
proof -
  have ok: "pg_ok (pool s) jb view" and m: "mode s = PgJsonb"
    using assms(1) by (simp_all add: lawful_def)
  let ?d = "snd (pool_get (pool s) (db s))"
  let ?q = "pg_query_opt (pool s) (Select_data Chunks_jsonb) x z ?d"
  note load = assms(2) [unfolded pg_load_chunk_def]
  have got: "fst (pool_get (pool s) (db s))"
    using load by (simp add: pg_eval split: if_split_asm)
  obtain row where q: "fst ?q = Some row"
    using load by (cases "fst ?q") (simp_all add: pg_eval m got)
  have row: "row = view (db s) Chunks_jsonb (x, z)"
    using pg_okD(9) [OF ok q] by (simp add: pg_okD(1) [OF ok])
  show ?thesis
  proof (cases "view (db s) Chunks_jsonb (x, z)")
    case None
    then show ?thesis using load q row by (simp add: pg_eval m got jsonb_contents_def)
  next
    case (Some c)
    then obtain j where "c = Jsonb j"
      using pg_okD(2) [OF ok, of "db s"] unfolding typed_rows_def by blast
    then show ?thesis using load q row Some
      by (cases "nbt_to_bytes L (json_to_nbt N j)") (simp_all add: pg_eval m got jsonb_contents_def)
  qed
qed

interpretation raw: chunk_storage "postgres_ops L N" "raw_contents view" "\<lambda>d. Some (Some d)"
  "lawful PgRaw jb view" for L N view jb
proof (unfold_locales, goal_cases)
  case (1 s x z d u s')
  then have "view (db s') = upserted jb Chunks_raw (x, z) (Bytea d) (view (db s))"
    using raw_save_view [of jb view s L N x z d "Inr u" s'] by (simp add: postgres_ops_def)
  from upserted_contents(1) [OF this] show ?case by (simp add: apply_effect_def)
next
  case (2 s x z d e s')
  then have "view (db s') = view (db s) \<or>
      view (db s') = upserted jb Chunks_raw (x, z) (Bytea d) (view (db s))"
    using raw_save_view [of jb view s L N x z d "Inl e" s'] by (simp add: postgres_ops_def)
  then show ?case
  proof
    assume "view (db s') = view (db s)"
    from same_view_contents(1) [where view = view, OF this] show ?thesis by simp
  next
    assume "view (db s') = upserted jb Chunks_raw (x, z) (Bytea d) (view (db s))"
    from upserted_contents(1) [OF this] show ?thesis by (simp add: apply_effect_def)
  qed
next
  case (3 s x z r s')
  then show ?case
    using raw_load_result [of jb view s L N x z r s'] by (simp add: postgres_ops_def)
next
  case (4 s x z)
  then have "view (db (snd (pg_load_chunk L N x z s))) = view (db s)"
    using load_view [of s jb view L N x z] by (simp add: lawful_def)
  from same_view_contents(1) [where view = view, OF this] show ?case by (simp add: postgres_ops_def)
qed (simp_all add: postgres_ops_def methods_keep_lawful)

text \<open>What a save of \<open>d\<close> does to the contents in JSONB mode, whether or not \<open>d\<close> is NBT.\<close>

lemma jsonb_save_contents:
  assumes "lawful PgJsonb jb view s" and "pg_save_chunk L N x z d s = (r, s')"
  shows "(r = Inr () \<longrightarrow> jsonb_contents L N view s' =
      apply_effect (jsonb_effect L N jb d) (x, z) (jsonb_contents L N view s)) \<and>
    (jsonb_contents L N view s' = jsonb_contents L N view s \<or>
     jsonb_contents L N view s' =
      apply_effect (jsonb_effect L N jb d) (x, z) (jsonb_contents L N view s))"
proof (cases "nbt_from_bytes L d")
  case None
  from same_view_contents(2) [where view = view, OF jsonb_save_unparsed [OF assms None]]
  have "jsonb_contents L N view s' = jsonb_contents L N view s" .
  with None show ?thesis by (simp add: apply_effect_def jsonb_effect_def)
next
  case (Some v)
  let ?u = "view (db s') = upserted jb Chunks_jsonb (x, z) (Jsonb (nbt_to_json N v)) (view (db s))"
  have up: "jsonb_contents L N view s' =
      apply_effect (jsonb_effect L N jb d) (x, z) (jsonb_contents L N view s)" if ?u
    using upserted_contents(2) [OF that] Some by (simp add: apply_effect_def jsonb_effect_def)
  have same: "jsonb_contents L N view s' = jsonb_contents L N view s" if "view (db s') = view (db s)"
    by (rule same_view_contents(2) [where view = view, OF that])
  have "(r = Inr () \<longrightarrow> ?u) \<and> (view (db s') = view (db s) \<or> ?u)"
    by (rule jsonb_save_view [OF assms Some])
  with up same show ?thesis by blast
qed

interpretation jsonb: chunk_storage "postgres_ops L N" "jsonb_contents L N view" "jsonb_effect L N jb"
  "lawful PgJsonb jb view" for L N view jb
proof (unfold_locales, goal_cases)
  case (1 s x z d u s')
  then show ?case
    using jsonb_save_contents [of jb view s L N x z d "Inr u" s'] by (simp add: postgres_ops_def)
next
  case (2 s x z d e s')
  then show ?case
    using jsonb_save_contents [of jb view s L N x z d "Inl e" s'] by (simp add: postgres_ops_def)
next
  case (3 s x z r s')
  then show ?case
    using jsonb_load_result [of jb view s L N x z r s'] by (simp add: postgres_ops_def)
next
  case (4 s x z)
  then have "view (db (snd (pg_load_chunk L N x z s))) = view (db s)"
    using load_view [of s jb view L N x z] by (simp add: lawful_def)
  from same_view_contents(2) [where view = view, OF this] show ?case by (simp add: postgres_ops_def)
qed (simp_all add: postgres_ops_def methods_keep_lawful)

text \<open>The modes without an implementation: nothing is ever saved or found.\<close>

interpretation unimplemented: chunk_storage "postgres_ops L N" "\<lambda>s p. None" "\<lambda>d. None"
  "\<lambda>s. mode s \<in> {Hybrid, Weightless}" for L N
  by (unfold_locales; auto simp: postgres_ops_def apply_effect_def methods_keep_pool pg_load_chunk_def pg_eval
      split: if_splits)

subsection \<open>A database in memory\<close>

text \<open>An instance of the client for the witnesses: two maps, every call succeeds.\<close>

type_synonym 'n mem_db = "(chunk_pos \<rightharpoonup> bytes) \<times> (chunk_pos \<rightharpoonup> 'n json)"

definition mem_view :: "('n mem_db, 'n) view" where
  "mem_view d t = (case t of Chunks_raw \<Rightarrow> map_option Bytea \<circ> fst d | Chunks_jsonb \<Rightarrow> map_option Jsonb \<circ> snd d)"

fun mem_execute :: "stmt \<Rightarrow> i32 \<Rightarrow> i32 \<Rightarrow> 'n column \<Rightarrow> 'n mem_db \<Rightarrow> bool \<times> 'n mem_db" where
  "mem_execute (Upsert Chunks_raw) x z (Bytea b) (r, j) = (True, (r((x, z) \<mapsto> b), j))"
| "mem_execute (Upsert Chunks_jsonb) x z (Jsonb b) (r, j) = (True, (r, j((x, z) \<mapsto> b)))"
| "mem_execute _ _ _ _ d = (False, d)"

fun mem_query_opt :: "stmt \<Rightarrow> i32 \<Rightarrow> i32 \<Rightarrow> 'n mem_db \<Rightarrow> 'n column option option \<times> 'n mem_db" where
  "mem_query_opt (Select_data t) x z d = (Some (mem_view d t (x, z)), d)"
| "mem_query_opt _ _ _ d = (None, d)"

definition mem_query :: "stmt \<Rightarrow> i32 \<Rightarrow> i32 \<Rightarrow> 'n mem_db \<Rightarrow> 'n column list option \<times> 'n mem_db" where
  "mem_query q x z d =
     map_prod (map_option (\<lambda>row. case row of None \<Rightarrow> [] | Some v \<Rightarrow> [v])) id (mem_query_opt q x z d)"

definition mem_client :: "('n mem_db, 'n) pg_client" where
  "mem_client = \<lparr>pool_get = Pair True, pg_batch_execute = (\<lambda>_. Pair True), pg_execute = mem_execute,
     pg_query = mem_query, pg_query_opt = mem_query_opt, pg_query_one = (\<lambda>_. Pair (Some (Bigint 0)))\<rparr>"

lemma mem_execute_upsert:
  "fst (mem_execute (Upsert t) x z v d) \<Longrightarrow>
     mem_view (snd (mem_execute (Upsert t) x z v d)) = upserted id t (x, z) v (mem_view d)"
  "mem_view (snd (mem_execute (Upsert t) x z v d)) = mem_view d \<or>
     mem_view (snd (mem_execute (Upsert t) x z v d)) = upserted id t (x, z) v (mem_view d)"
  by (cases d; cases t; cases v; auto simp: upserted_def mem_view_def fun_eq_iff split: table.split)+

lemma mem_typed: "typed_rows (mem_view d)"
  by (auto simp: typed_rows_def mem_view_def)

lemma mem_client_ok: "pg_ok mem_client id mem_view"
  unfolding pg_ok_def mem_client_def
  by (simp add: mem_execute_upsert mem_query_def mem_typed)

abbreviation mem_storage :: "storage_mode \<Rightarrow> ('n mem_db, 'n) postgres_storage" where
  "mem_storage m \<equiv> \<lparr>pool = mem_client, mode = m, db = (Map.empty, Map.empty)\<rparr>"

subsection \<open>Coordinates through JSON\<close>

text \<open>The tags the coordinates are read from are integers, as the game writes them.\<close>

definition int_tagged :: "(string, nbt) fmap \<Rightarrow> bool" where
  "int_tagged c \<longleftrightarrow> (\<forall>k \<in> {''xPos'', ''zPos''}. \<forall>t. fmlookup c k = Some t \<longrightarrow> tag_id t \<le> 4)"

definition int_coords :: "nbt \<Rightarrow> bool" where
  "int_coords v =
     (case v of
        VCompound root \<Rightarrow> int_tagged root \<and>
          (case fmlookup root ''Level'' of Some (VCompound level) \<Rightarrow> int_tagged level | _ \<Rightarrow> True)
      | _ \<Rightarrow> True)"

text \<open>Maps of values that keep integer tags readable and compounds compounds keep the coordinates.\<close>

lemma int_tagged_image:
  assumes "\<And>t. tag_id t \<le> 4 \<Longrightarrow> nbt_as_i64 L (h t) = nbt_as_i64 L t"
    and "int_tagged c" and "k \<in> {''xPos'', ''zPos''}" and "fmlookup c k = Some t"
  shows "nbt_as_i64 L (h t) = nbt_as_i64 L t"
  using assms(1) [of t] assms(2-4) unfolding int_tagged_def by blast

lemma coord_pair_image:
  assumes ints: "\<And>t. tag_id t \<le> 4 \<Longrightarrow> nbt_as_i64 L (h t) = nbt_as_i64 L t"
    and inside: "\<And>lv. fmlookup c ''Level'' = Some (VCompound lv) \<Longrightarrow> h (VCompound lv) = VCompound (fmmap h lv)"
    and others: "\<And>v m. h v = VCompound m \<Longrightarrow> \<exists>lv. v = VCompound lv"
    and "int_coords (VCompound c)"
  shows "coord_pair L (fmmap h c) = coord_pair L c"
proof -
  have root: "int_tagged c" using assms(4) by (simp add: int_coords_def)
  have level: "int_tagged lv" if "fmlookup c ''Level'' = Some (VCompound lv)" for lv
    using assms(4) that by (simp add: int_coords_def)
  have bind: "Option.bind (map_option h (fmlookup lv k)) (nbt_as_i64 L) =
      Option.bind (fmlookup lv k) (nbt_as_i64 L)"
    if "int_tagged lv" and "k \<in> {''xPos'', ''zPos''}" for lv k
    using int_tagged_image [of L h, OF ints that] by (cases "fmlookup lv k") simp_all
  have at_level: "(case map_option h l of
        Some (VCompound lv) \<Rightarrow> (Option.bind (fmlookup lv ''xPos'') (nbt_as_i64 L),
          Option.bind (fmlookup lv ''zPos'') (nbt_as_i64 L)) | _ \<Rightarrow> (None, None)) =
      (case l of
        Some (VCompound lv) \<Rightarrow> (Option.bind (fmlookup lv ''xPos'') (nbt_as_i64 L),
          Option.bind (fmlookup lv ''zPos'') (nbt_as_i64 L)) | _ \<Rightarrow> (None, None))"
    if "fmlookup c ''Level'' = l" for l
  proof (cases l)
    case (Some v)
    show ?thesis
    proof (cases "\<exists>lv. v = VCompound lv")
      case True
      then obtain lv where lv: "v = VCompound lv" by blast
      show ?thesis using bind [OF level] inside that Some lv by simp
    next
      case False
      then have "\<nexists>m. h v = VCompound m" using others by blast
      with False Some show ?thesis by (cases v; cases "h v"; simp)
    qed
  qed simp
  show ?thesis
    using int_tagged_image [of L h, OF ints root, of "''xPos''"] int_tagged_image [of L h, OF ints root, of "''zPos''"]
      at_level [OF refl]
    by (cases "fmlookup c ''xPos''"; cases "fmlookup c ''zPos''") (simp_all add: coord_pair_def)
qed

lemma declared_coords_image:
  assumes ints: "\<And>t. tag_id t \<le> 4 \<Longrightarrow> nbt_as_i64 L (h t) = nbt_as_i64 L t"
    and inside: "\<And>c. v = VCompound c \<Longrightarrow> h (VCompound c) = VCompound (fmmap h c) \<and>
      (\<forall>lv. fmlookup c ''Level'' = Some (VCompound lv) \<longrightarrow> h (VCompound lv) = VCompound (fmmap h lv))"
    and others: "\<And>v m. h v = VCompound m \<Longrightarrow> \<exists>lv. v = VCompound lv"
    and "int_coords v" and "nbt_from_bytes L d = Some v" and "nbt_from_bytes L d' = Some (h v)"
  shows "declared_coords L d' = declared_coords L d"
proof (cases "\<exists>c. v = VCompound c")
  case True
  then obtain c where c: "v = VCompound c" by blast
  have "coord_pair L (fmmap h c) = coord_pair L c"
    by (rule coord_pair_image [OF ints _ others]) (use inside [OF c] assms(4) c in simp_all)
  with assms(5,6) inside [OF c] c show ?thesis by (simp add: declared_coords_def)
next
  case False
  then have "\<nexists>m. h v = VCompound m" using others by blast
  with False assms(5,6) show ?thesis
    by (cases v; cases "h v"; simp add: declared_coords_def)
qed

lemma declared_coords_canon:
  assumes "nbt_lib_ok L" and "int_coords v"
    and "nbt_from_bytes L d = Some v" and "nbt_from_bytes L d' = Some (canon v)"
  shows "declared_coords L d' = declared_coords L d"
proof (rule declared_coords_image [where h = canon, OF _ _ _ assms(2-4)])
  show "tag_id t \<le> 4 \<Longrightarrow> nbt_as_i64 L (canon t) = nbt_as_i64 L t" for t
    using assms(1) by (cases t) (simp_all add: nbt_lib_ok_def)
qed (auto simp: canon_VCompound)

text \<open>A column of the type \<open>jsonb\<close> keeps documents, but writes their numbers its own way: \<open>g\<close>. What comes
  back of a value through such a column:\<close>

definition through_jsonb :: "'n num_lib \<Rightarrow> ('n \<Rightarrow> 'n) \<Rightarrow> nbt \<Rightarrow> nbt" where
  "through_jsonb N g v = json_to_nbt N (map_json g (nbt_to_json N v))"

definition keeps_ints :: "'n num_lib \<Rightarrow> ('n \<Rightarrow> 'n) \<Rightarrow> bool" where
  "keeps_ints N g \<longleftrightarrow> (\<forall>i. num_as_i64 N (g (num_of_i64 N i)) = Some i)"

lemma tagged_numbers: "tagged_array N (fmmap (map_json g) (fmmap (nbt_to_json N) c)) = None \<longleftrightarrow>
    tagged_array N (fmmap (nbt_to_json N) c) = None"
proof -
  have "array_at (fmmap (map_json g) m) k = map_option (map (map_json g)) (array_at m k)"
    for k and m :: "(string, 'a json) fmap"
    by (auto simp: array_at_def split: option.split json.split)
  then show ?thesis by (simp add: tagged_array_def split: option.split)
qed

lemma through_jsonb_VCompound:
  "\<not> looks_tagged c \<Longrightarrow> through_jsonb N g (VCompound c) = VCompound (fmmap (through_jsonb N g) c)"
  using tagged_numbers [of N g c] untagged_image [of c N]
  by (simp add: through_jsonb_def [abs_def] fmap.map_comp comp_def)

lemma through_jsonb_compound: "through_jsonb N g v = VCompound m \<Longrightarrow> \<exists>c. v = VCompound c"
  by (cases v) (auto simp: through_jsonb_def array_object_def fmmap_fmupd tagged_array_object split: option.splits)

lemma through_jsonb_int:
  "nbt_lib_ok L \<Longrightarrow> keeps_ints N g \<Longrightarrow> tag_id t \<le> 4 \<Longrightarrow> nbt_as_i64 L (through_jsonb N g t) = nbt_as_i64 L t"
  by (cases t) (simp_all add: through_jsonb_def keeps_ints_def nbt_lib_ok_def)

lemma declared_coords_jsonb:
  assumes L: "nbt_lib_ok L" and g: "keeps_ints N g" and v: "plain v" "int_coords v"
    and d: "nbt_from_bytes L d = Some v" "nbt_from_bytes L d' = Some (through_jsonb N g v)"
  shows "declared_coords L d' = declared_coords L d"
proof (rule declared_coords_image [where h = "through_jsonb N g", OF _ _ _ v(2) d])
  show "tag_id t \<le> 4 \<Longrightarrow> nbt_as_i64 L (through_jsonb N g t) = nbt_as_i64 L t" for t
    by (rule through_jsonb_int [OF L g])
next
  fix c
  assume c: "v = VCompound c"
  have "\<not> looks_tagged lv" if "fmlookup c ''Level'' = Some (VCompound lv)" for lv
    using v(1) c that fmran'I [OF that] by (auto simp: fmpred_fmmap simp del: fmpred_map)
  then show "through_jsonb N g (VCompound c) = VCompound (fmmap (through_jsonb N g) c) \<and>
      (\<forall>lv. fmlookup c ''Level'' = Some (VCompound lv) \<longrightarrow>
         through_jsonb N g (VCompound lv) = VCompound (fmmap (through_jsonb N g) lv))"
    using v(1) c by (simp add: through_jsonb_VCompound)
qed (rule through_jsonb_compound)

subsection \<open>Properties\<close>

text \<open>C28: in raw mode a saved chunk is what every later load that succeeds returns, whatever is
  saved at other coordinates in between and whether or not those saves succeed.\<close>

theorem raw_last_save_wins:
  assumes "pg_ok (pool s) jb view" and "mode s = PgRaw"
    and "pg_save_chunk L N x z d s = (Inr (), s')"
    and "(x, z) \<notin> fst ` set ws"
    and "pg_load_chunk L N x z (fold (\<lambda>((x, z), d) s. snd (pg_save_chunk L N x z d s)) ws s') = (Inr r, s'')"
  shows "r = Some d"
  using raw.last_save_wins [of jb view s L N x z d "()" s' ws r s'' "Some d"] assms
  by (simp add: postgres_ops_def lawful_def)

theorem raw_last_save_wins_witness:
  "fst (pg_load_chunk tiny_nbt sum_num_lib 1 2 (snd (pg_save_chunk tiny_nbt sum_num_lib 3 4 [8]
     (snd (pg_save_chunk tiny_nbt sum_num_lib 1 2 [7] (mem_storage PgRaw)))))) = Inr (Some [7])"
proof -
  let ?s = "mem_storage PgRaw :: ((i64 + f64) mem_db, i64 + f64) postgres_storage"
  let ?s1 = "snd (pg_save_chunk tiny_nbt sum_num_lib 1 2 [7] ?s)"
  let ?s2 = "fold (\<lambda>((x, z), d) s. snd (pg_save_chunk tiny_nbt sum_num_lib x z d s)) [((3, 4), [8])] ?s1"
  have save: "pg_save_chunk tiny_nbt sum_num_lib 1 2 [7] ?s = (Inr (), ?s1)"
    by (simp add: pg_save_chunk_def pg_eval done_or_def mem_client_def)
  obtain r where load: "pg_load_chunk tiny_nbt sum_num_lib 1 2 ?s2 = (Inr r, ?s2)"
    by (simp add: pg_load_chunk_def pg_save_chunk_def pg_eval done_or_def mem_client_def mem_query_def
        mem_view_def)
  have "r = Some [7]"
    by (rule raw_last_save_wins [OF _ _ save _ load, where jb = id and view = mem_view])
       (simp_all add: mem_client_ok)
  with load show ?thesis by simp
qed

lemma jsonb_handed_back:
  assumes "pg_ok (pool s) jb view" and "mode s = PgJsonb" and "nbt_from_bytes L d = Some v"
    and "pg_save_chunk L N x z d s = (Inr (), s')" and "pg_load_chunk L N x z s' = (Inr r, s'')"
  shows "r = nbt_to_bytes L (json_to_nbt N (jb (nbt_to_json N v)))"
  using jsonb.read_your_write [of jb view s L N x z d "()" s' x z r s''] assms
  by (simp add: postgres_ops_def lawful_def apply_effect_def jsonb_effect_def)

lemma jsonb_reload:
  assumes "pg_ok (pool s) jb view" and "mode s = PgJsonb" and "num_lib_ok N" and "nbt_lib_ok L"
    and "nbt_from_bytes L d = Some v" and "plain v" and "int_coords v"
    and "jb (nbt_to_json N v) = nbt_to_json N v"
    and "pg_save_chunk L N x z d s = (Inr (), s')" and "pg_load_chunk L N x z s' = (Inr r, s'')"
  shows "r = nbt_to_bytes L (canon v) \<and>
    (\<forall>d'. r = Some d' \<longrightarrow> declared_coords L d' = declared_coords L d)"
proof -
  have r: "r = nbt_to_bytes L (canon v)"
    using jsonb_handed_back [OF assms(1,2,5,9,10)] by (simp add: assms(8) json_roundtrip_canon assms(3,6))
  have "declared_coords L d' = declared_coords L d" if "r = Some d'" for d'
  proof (rule declared_coords_canon [OF assms(4,7,5)])
    show "nbt_from_bytes L d' = Some (canon v)"
      using r that assms(4) by (simp add: nbt_lib_ok_def)
  qed
  with r show ?thesis by blast
qed

text \<open>C30: in JSONB mode a load after a successful save of a chunk that parses returns what the conversions
  make of the document as the database hands it back, re-serialised. If the database hands back the very
  document and no compound looks like a tagged array, that is the chunk's canonical form. And if the
  database changes nothing but how it writes numbers, keeping integers, no compound looks like a
  tagged array and the coordinates are integer tags, the loaded chunk declares the same coordinates, so
  it passes the same consistency check. (PostgreSQL may change numbers: it writes the double 1e16 as an
  integer.)\<close>

theorem jsonb_load_after_save:
  assumes "pg_ok (pool s) jb view" and "mode s = PgJsonb" and "num_lib_ok N" and "nbt_lib_ok L"
    and "nbt_from_bytes L d = Some v"
    and "pg_save_chunk L N x z d s = (Inr (), s')" and "pg_load_chunk L N x z s' = (Inr r, s'')"
  shows "r = nbt_to_bytes L (json_to_nbt N (jb (nbt_to_json N v))) \<and>
    (jb (nbt_to_json N v) = nbt_to_json N v \<and> plain v \<longrightarrow> r = nbt_to_bytes L (canon v)) \<and>
    (jb (nbt_to_json N v) = map_json g (nbt_to_json N v) \<and> keeps_ints N g \<and> plain v \<and> int_coords v \<longrightarrow>
       (\<forall>d'. r = Some d' \<longrightarrow> declared_coords L d' = declared_coords L d))"
proof -
  have r: "r = nbt_to_bytes L (json_to_nbt N (jb (nbt_to_json N v)))"
    by (rule jsonb_handed_back [OF assms(1,2,5-7)])
  have "declared_coords L d' = declared_coords L d"
    if "jb (nbt_to_json N v) = map_json g (nbt_to_json N v)" "keeps_ints N g" "plain v" "int_coords v" "r = Some d'" for d'
  proof (rule declared_coords_jsonb [OF assms(4) that(2-4) assms(5)])
    show "nbt_from_bytes L d' = Some (through_jsonb N g v)"
      using r that(1,5) assms(4) by (simp add: nbt_lib_ok_def through_jsonb_def)
  qed
  then show ?thesis using r by (auto simp: json_roundtrip_canon [OF assms(3)])
qed

theorem jsonb_load_after_save_witness:
  "fst (pg_load_chunk tiny_nbt sum_num_lib 5 6
     (snd (pg_save_chunk tiny_nbt sum_num_lib 5 6 [0, 5, 6] (mem_storage PgJsonb)))) = Inr (Some [1, 5, 6]) \<and>
   declared_coords tiny_nbt [1, 5, 6] = declared_coords tiny_nbt [0, 5, 6]"
proof -
  let ?v = "coords_nbt (\<lambda>b. VInt (scast b)) 5 6"
  let ?s = "mem_storage PgJsonb :: ((i64 + f64) mem_db, i64 + f64) postgres_storage"
  let ?s1 = "snd (pg_save_chunk tiny_nbt sum_num_lib 5 6 [0, 5, 6] ?s)"
  have parse: "nbt_from_bytes tiny_nbt [0, 5, 6] = Some ?v"
    by (simp add: tiny_nbt_def)
  have plain: "plain ?v" and int: "int_coords ?v"
    by (auto simp: coords_nbt_def looks_tagged_def fcard_finsert_disjoint int_coords_def int_tagged_def
        intro!: fmpred_upd)
  have save: "pg_save_chunk tiny_nbt sum_num_lib 5 6 [0, 5, 6] ?s = (Inr (), ?s1)"
    by (simp add: pg_save_chunk_def pg_eval done_or_def mem_client_def parse)
  obtain r s2 where load: "pg_load_chunk tiny_nbt sum_num_lib 5 6 ?s1 = (Inr r, s2)"
    by (cases "nbt_to_bytes tiny_nbt (json_to_nbt sum_num_lib (nbt_to_json sum_num_lib ?v))")
       (simp_all add: pg_load_chunk_def pg_save_chunk_def pg_eval done_or_def mem_client_def parse
        mem_view_def)
  have same: "id (nbt_to_json sum_num_lib ?v) = map_json id (nbt_to_json sum_num_lib ?v)"
    by (simp add: json.map_id)
  have ints: "keeps_ints sum_num_lib id" by (simp add: keeps_ints_def sum_num_lib_def)
  have pg: "pg_ok (pool ?s) id mem_view" and m: "mode ?s = PgJsonb" by (simp_all add: mem_client_ok)
  from jsonb_load_after_save [OF pg m sum_num_lib_ok tiny_nbt_ok parse save load, of id]
  have "r = nbt_to_bytes tiny_nbt (canon ?v) \<and>
      (\<forall>d'. r = Some d' \<longrightarrow> declared_coords tiny_nbt d' = declared_coords tiny_nbt [0, 5, 6])"
    using plain int same ints id_apply [of "nbt_to_json sum_num_lib ?v"] by blast
  moreover have "fmupd ''xPos'' (VInt 5) m \<noteq> fmupd ''xPos'' (VLong 5) m'" for m m'
    by (rule notI, drule arg_cong [where f = "\<lambda>m. fmlookup m ''xPos''"]) simp
  then have "nbt_to_bytes tiny_nbt (canon ?v) = Some [1, 5, 6]"
    by (simp add: tiny_nbt_def tiny_to_bytes_def coords_nbt_def fmmap_fmupd Let_def)
  ultimately show ?thesis using load by simp
qed

text \<open>In JSONB mode a save of bytes that are not NBT is dropped in silence: it reports success
  and leaves every row as it was, so the next load still returns the chunk's former contents, or
  none.\<close>

lemma jsonb_drops_unparseable:
  assumes "pg_ok (pool s) jb view" and "mode s = PgJsonb" and "nbt_from_bytes L d = None"
    and "fst (pool_get (pool s) (db s))"
  shows "fst (pg_save_chunk L N x z d s) = Inr () \<and>
    view (db (snd (pg_save_chunk L N x z d s))) = view (db s)"
  using assms(2-) pg_okD(1) [OF assms(1), of "db s"]
  by (simp add: pg_save_chunk_def pg_eval)

text \<open>C29: a save never touches another chunk's row and is atomic on its own: whatever it reports,
  afterwards each chunk loads as before or, for the saved one, as what was saved.\<close>

theorem raw_save_atomic:
  assumes "pg_ok (pool s) jb view" and "mode s = PgRaw"
    and "pg_load_chunk L N x' z' s = (Inr before, s1)"
    and "pg_load_chunk L N x' z' (snd (pg_save_chunk L N x z d s)) = (Inr after, s2)"
  shows "after = before \<or> (x', z') = (x, z) \<and> after = Some d"
proof -
  have L: "lawful PgRaw jb view s" using assms(1,2) by (simp add: lawful_def)
  obtain r s' where save: "pg_save_chunk L N x z d s = (r, s')" by fastforce
  have "raw_contents view s' = raw_contents view s \<or>
      raw_contents view s' = (raw_contents view s)((x, z) \<mapsto> d)"
    using raw_save_view [OF L save] upserted_contents(1) [of view s' jb "(x, z)" d s]
      same_view_contents(1) [of view s' s] by blast
  moreover have "after = raw_contents view s' (x', z')"
    using raw_load_result [OF methods_keep_lawful(1) [OF L] assms(4)] save by simp
  moreover have "before = raw_contents view s (x', z')"
    by (rule raw_load_result [OF L assms(3)])
  ultimately show ?thesis by (auto split: if_splits)
qed

theorem raw_save_atomic_witness:
  "fst (pg_load_chunk tiny_nbt sum_num_lib 3 4
     (snd (pg_save_chunk tiny_nbt sum_num_lib 1 2 [7] (mem_storage PgRaw)))) = Inr None"
proof -
  let ?s = "mem_storage PgRaw :: ((i64 + f64) mem_db, i64 + f64) postgres_storage"
  have before: "pg_load_chunk tiny_nbt sum_num_lib 3 4 ?s = (Inr None, ?s)"
    by (simp add: pg_load_chunk_def pg_eval mem_client_def mem_query_def mem_view_def)
  obtain r s2 where after: "pg_load_chunk tiny_nbt sum_num_lib 3 4
      (snd (pg_save_chunk tiny_nbt sum_num_lib 1 2 [7] ?s)) = (Inr r, s2)"
    by (simp add: pg_load_chunk_def pg_save_chunk_def pg_eval done_or_def mem_client_def mem_query_def
        mem_view_def)
  have "r = None"
    using raw_save_atomic [OF _ _ before after, where jb = id and view = mem_view]
    by (simp add: mem_client_ok)
  with after show ?thesis by simp
qed

end
