(* ===== verification/Virtual_File.thy ===== *)
theory Virtual_File
  imports Storage Metrics
begin

text \<open>
  \<open>hoppermc-fs/src/virtual_file.rs\<close>: reading and writing a region file that does not exist. A read
  is served from the fixed header and, slot by slot, from chunk blobs that come out of the LRU
  cache, the storage or the generator; a write is taken apart into the chunk it carries and
  saved.

  \<open>vf_env\<close> is what a \<open>VirtualFile\<close> never changes, \<open>vf_state\<close> what it shares and mutates. The
  generator (the trait of \<open>hoppermc-gen/src/lib.rs\<close>) and the LRU cache (the crate lru) are
  parameters. \<open>Instant::elapsed\<close> and whatever else may differ from one call to the next are
  oracles over the number of clock readings and generator calls so far, \<open>ticks\<close>. Sizes (\<open>usize\<close>)
  are natural numbers: every size of a request is a \<open>u32\<close> of the FUSE protocol.
\<close>

subsection \<open>The trait \<open>WorldGenerator\<close>\<close>

text \<open>The error is an \<open>anyhow::Error\<close>, which callers only log. The second component is what the
  generator records in the metrics, if there are any. \<open>Generator_panicked\<close> is no value the code sees
  but the end of the process (\<open>panic = "abort"\<close> of the release profile); whoever calls the generator
  notes it in \<open>aborted\<close>.\<close>

datatype gen_error = Generation_failed | Generator_panicked

type_synonym generator = "i32 \<Rightarrow> i32 \<Rightarrow> nat \<Rightarrow> (gen_error + bytes) \<times> atomic list"

subsection \<open>The LRU cache\<close>

record 'c lru =
  lru_new :: "nat \<Rightarrow> 'c"
  lru_get :: "chunk_pos \<Rightarrow> 'c \<Rightarrow> bytes option \<times> 'c"
  lru_put :: "chunk_pos \<Rightarrow> bytes \<Rightarrow> 'c \<Rightarrow> 'c"
  lru_contains :: "chunk_pos \<Rightarrow> 'c \<Rightarrow> bool"

text \<open>What is relied on: a lookup finds what is there and removes nothing; an insertion binds its
  key and may evict others, but never changes or invents an entry.\<close>

definition lru_ok :: "'c lru \<Rightarrow> ('c \<Rightarrow> chunk_pos \<rightharpoonup> bytes) \<Rightarrow> bool" where
  "lru_ok C entries \<longleftrightarrow>
     (\<forall>n. entries (lru_new C n) = Map.empty) \<and>
     (\<forall>k c. fst (lru_get C k c) = entries c k \<and> entries (snd (lru_get C k c)) = entries c) \<and>
     (\<forall>k b c. entries (lru_put C k b c) k = Some b \<and> entries (lru_put C k b c) \<subseteq>\<^sub>m (entries c)(k \<mapsto> b)) \<and>
     (\<forall>k c. lru_contains C k c \<longleftrightarrow> entries c k \<noteq> None)"

subsection \<open>\<open>VirtualFile\<close>\<close>

record ('s, 'c) vf_env =
  generate_chunk :: generator
  storage :: "'s storage_ops option"
  cache_ops :: "'c lru"
  compressor :: codec
  fastnbt :: nbt_lib
  elapsed :: "nat \<Rightarrow> duration"
  prefetch_radius :: u8
  header_cache :: bytes

record ('s, 'c) vf_state =
  cache :: 'c
  store :: 's
  benchmark :: "metrics option"
  ticks :: nat
  spawned :: "chunk_pos list"
  permits :: nat
  aborted :: bool

text \<open>\<open>aborted\<close> is whether a panic has ended the process: what the model does afterwards the program
  does not do.\<close>

text \<open>\<open>VirtualFile::new\<close>: the capacity of the cache, the header, the two permits.\<close>

definition cache_capacity :: "nat \<Rightarrow> nat" where
  "cache_capacity cache_size = (if cache_size = 0 then 500 else cache_size)"

definition virtual_file_new ::
    "generator \<Rightarrow> 's storage_ops option \<Rightarrow> 'c lru \<Rightarrow> codec \<Rightarrow> nbt_lib \<Rightarrow> (nat \<Rightarrow> duration) \<Rightarrow>
     's \<Rightarrow> metrics option \<Rightarrow> nat \<Rightarrow> u8 \<Rightarrow> ('s, 'c) vf_env \<times> ('s, 'c) vf_state" where
  "virtual_file_new gen st C cd L clock s bench cache_size radius =
     (\<lparr>generate_chunk = gen, storage = st, cache_ops = C, compressor = cd, fastnbt = L, elapsed = clock,
       prefetch_radius = radius, header_cache = generate_header\<rparr>,
      \<lparr>cache = lru_new C (cache_capacity cache_size), store = s, benchmark = bench, ticks = 0,
       spawned = [], permits = 2, aborted = False\<rparr>)"

text \<open>\<open>if let Some(bench) = &self.benchmark\<close> in front of a recording method, and the same with a
  duration measured at that moment.\<close>

definition note_metrics :: "atomic list \<Rightarrow> ('s, 'c) vf_state \<Rightarrow> ('s, 'c) vf_state" where
  "note_metrics ops s = s\<lparr>benchmark := map_option (run ops) (benchmark s)\<rparr>"

definition note_elapsed ::
    "(duration \<Rightarrow> atomic list) \<Rightarrow> ('s, 'c) vf_env \<Rightarrow> ('s, 'c) vf_state \<Rightarrow> ('s, 'c) vf_state" where
  "note_elapsed f E s = note_metrics (f (elapsed E (ticks s))) (s\<lparr>ticks := Suc (ticks s)\<rparr>)"

text \<open>The state after a load: \<open>row.get(0)\<close> panics on a column of another type.\<close>

definition after_load ::
    "storage_error + bytes option \<Rightarrow> 's \<Rightarrow> ('s, 'c) vf_state \<Rightarrow> ('s, 'c) vf_state" where
  "after_load res d s = s\<lparr>store := d, aborted := aborted s \<or> res = Inl Row_type_panic\<rparr>"

lemma after_load_simps [simp]:
  "store (after_load res d s) = d" "cache (after_load res d s) = cache s"
  "benchmark (after_load res d s) = benchmark s" "ticks (after_load res d s) = ticks s"
  "spawned (after_load res d s) = spawned s" "permits (after_load res d s) = permits s"
  "aborted (after_load res d s) \<longleftrightarrow> aborted s \<or> res = Inl Row_type_panic"
  by (simp_all add: after_load_def)

text \<open>A call of the generator with its time recorded, as in each fallback of \<open>read_at\<close>.\<close>

definition generate_timed ::
    "('s, 'c) vf_env \<Rightarrow> i32 \<Rightarrow> i32 \<Rightarrow> ('s, 'c) vf_state \<Rightarrow> (gen_error + bytes) \<times> ('s, 'c) vf_state" where
  "generate_timed E x z s =
     (case generate_chunk E x z (ticks s) of
        (res, ops) \<Rightarrow> (res, note_elapsed record_generation E 
         (note_metrics ops (s\<lparr>ticks := Suc (ticks s), aborted := aborted s \<or> res = Inl Generator_panicked\<rparr>))))"

text \<open>\<open>nbt_res\<close> of \<open>read_at\<close>: from the storage if it is there and consistent, else generated.\<close>

definition load_or_generate ::
    "('s, 'c) vf_env \<Rightarrow> i32 \<Rightarrow> i32 \<Rightarrow> ('s, 'c) vf_state \<Rightarrow> (gen_error + bytes) \<times> ('s, 'c) vf_state" where
  "load_or_generate E abs_x abs_z s =
     (case storage E of
        Some ops \<Rightarrow>
          (case load_chunk ops abs_x abs_z (store s) of
             (storage_data, d) \<Rightarrow>
               let s = note_elapsed record_load E (after_load storage_data d s)
               in case storage_data of
                    Inr (Some raw_nbt) \<Rightarrow>
                      (case verify_chunk_coords (fastnbt E) raw_nbt abs_x abs_z of
                         Inl e \<Rightarrow> generate_timed E abs_x abs_z s
                       | Inr _ \<Rightarrow> (Inr raw_nbt, s))
                  | Inr None \<Rightarrow> generate_timed E abs_x abs_z s
                  | Inl e \<Rightarrow> generate_timed E abs_x abs_z s)
      | None \<Rightarrow> generate_timed E abs_x abs_z s)"

subsection \<open>Prefetching\<close>

text \<open>The two nested loops of \<open>trigger_prefetch\<close>: \<open>-radius..=radius\<close> as \<open>i32\<close>, the centre left
  out. Each turn spawns a task for one chunk.\<close>

definition radius_range :: "u8 \<Rightarrow> i32 list" where
  "radius_range r = map (\<lambda>d. word_of_int (int d - int (unat r))) [0..<2 * unat r + 1]"

definition prefetch_targets :: "u8 \<Rightarrow> i32 \<Rightarrow> i32 \<Rightarrow> chunk_pos list" where
  "prefetch_targets r center_x center_z =
     concat (map (\<lambda>dx. map (\<lambda>dz. (center_x + dx, center_z + dz))
                        (filter (\<lambda>dz. \<not> (dx = 0 \<and> dz = 0)) (radius_range r)))
                 (radius_range r))"

definition trigger_prefetch ::
    "('s, 'c) vf_env \<Rightarrow> i32 \<Rightarrow> i32 \<Rightarrow> ('s, 'c) vf_state \<Rightarrow> ('s, 'c) vf_state" where
  "trigger_prefetch E center_x center_z s =
     s\<lparr>spawned := spawned s @ prefetch_targets (prefetch_radius E) center_x center_z\<rparr>"

subsection \<open>Reading\<close>

text \<open>The value of \<open>chunk_blob\<close> in the loop of \<open>read_at\<close>; \<open>None\<close> where the source breaks out of the
  loop.\<close>

definition fetch_chunk ::
    "('s, 'c) vf_env \<Rightarrow> i32 \<Rightarrow> i32 \<Rightarrow> ('s, 'c) vf_state \<Rightarrow> bytes option \<times> ('s, 'c) vf_state" where
  "fetch_chunk E abs_x abs_z s =
     (case lru_get (cache_ops E) (abs_x, abs_z) (cache s) of
        (Some blob, c) \<Rightarrow> (Some blob, note_metrics record_cache_hit (s\<lparr>cache := c\<rparr>))
      | (None, c) \<Rightarrow>
          (case load_or_generate E abs_x abs_z (note_metrics record_cache_miss (s\<lparr>cache := c\<rparr>)) of
             (Inl e, s) \<Rightarrow> (None, s)
           | (Inr nbt_data, s) \<Rightarrow>
               (case verify_chunk_coords (fastnbt E) nbt_data abs_x abs_z of
                  Inl e \<Rightarrow> (None, s)
                | Inr _ \<Rightarrow>
                    let blob_opt = compress_and_wrap_chunk (compressor E) nbt_data;
                        s = note_elapsed record_compression E s
                    in case blob_opt of
                         None \<Rightarrow> (None, s)
                       | Some blob \<Rightarrow>
                           let s = s\<lparr>cache := lru_put (cache_ops E) (abs_x, abs_z) blob (cache s)\<rparr>;
                               s = note_metrics (record_chunk_sizes (length nbt_data) (length blob)) s;
                               s = (if prefetch_radius E > 0 then trigger_prefetch E abs_x abs_z s else s)
                           in (Some blob, s))))"

text \<open>What one turn of the loop appends once it has the blob: the rest of the blob, the zeros up to
  the end of the slot, or nothing (\<open>break\<close>).\<close>

definition slot_piece :: "i32 \<Rightarrow> i32 \<Rightarrow> u64 \<Rightarrow> nat \<Rightarrow> bytes \<Rightarrow> bytes option" where
  "slot_piece rel_x rel_z data_read_offset needed chunk_blob =
     (let chunk_start_file_offset = get_chunk_file_offset rel_x rel_z
      in if data_read_offset \<ge> chunk_start_file_offset then
           let local_offset = unat (data_read_offset - chunk_start_file_offset)
           in if local_offset < length chunk_blob then
                let available = length chunk_blob - local_offset;
                    to_copy = min available needed
                in Some (take to_copy (drop local_offset chunk_blob))
              else
                let chunk_end_offset = chunk_start_file_offset + SECTORS_PER_CHUNK * SECTOR_BYTES;
                    zeros_available =
                      (if data_read_offset \<le> chunk_end_offset then chunk_end_offset - data_read_offset else 0);
                    zeros_to_give = min (unat zeros_available) needed
                in Some (zeros zeros_to_give)
         else None)"

lemma slot_end:
  "unat (get_chunk_file_offset x z + SECTORS_PER_CHUNK * SECTOR_BYTES) =
     unat (get_chunk_file_offset x z) + slot_bytes"
  using slot_in_file [of x z] by (simp add: region_consts unat_word_ariths)

lemma slot_piece_bounds:
  assumes "get_chunk_coords_from_offset off = Some (rel_x, rel_z)" and "0 < needed"
    and "slot_piece rel_x rel_z off needed blob = Some piece"
  shows "0 < length piece \<and> length piece \<le> needed"
proof -
  let ?start = "get_chunk_file_offset rel_x rel_z"
  have lo: "unat ?start \<le> unat off" and hi: "unat off < unat ?start + slot_bytes"
    using coords_SomeD [OF assms(1)] by simp_all
  show ?thesis
    using assms(2,3) lo hi
    by (auto simp: slot_piece_def Let_def word_le_nat_alt slot_end unat_sub split: if_splits)
qed

lemma slot_piece_progress:
  assumes "get_chunk_coords_from_offset off = Some (rel_x, rel_z)" and "m < n"
    and "slot_piece rel_x rel_z off (n - m) blob = Some piece"
  shows "n - (m + length piece) < n - m"
  using slot_piece_bounds [OF assms(1) _ assms(3)] assms(2) by (cases piece) auto

text \<open>The loop of \<open>read_at\<close>, over the function that fetches a chunk's blob. It ends because every
  turn that does not break appends at least a byte, which rests on the layout: a position the
  offset map gives to a chunk lies before the end of the chunk's slot.\<close>

function read_loop ::
    "(i32 \<Rightarrow> i32 \<Rightarrow> 'st \<Rightarrow> bytes option \<times> 'st) \<Rightarrow> i32 \<Rightarrow> i32 \<Rightarrow> u64 \<Rightarrow> nat \<Rightarrow> bytes \<Rightarrow> 'st \<Rightarrow> bytes \<times> 'st" where
  "read_loop fetch region_x region_z offset n response_data s =
     (if length response_data < n then
        let current_len = length response_data;
            data_read_offset = offset + of_nat current_len;
            needed = n - current_len
        in (case get_chunk_coords_from_offset data_read_offset of
              None \<Rightarrow> (response_data, s)
            | Some (rel_x, rel_z) \<Rightarrow>
                (case fetch (region_x * 32 + rel_x) (region_z * 32 + rel_z) s of
                   (None, s') \<Rightarrow> (response_data, s')
                 | (Some chunk_blob, s') \<Rightarrow>
                     (case slot_piece rel_x rel_z data_read_offset needed chunk_blob of
                        None \<Rightarrow> (response_data, s')
                      | Some piece \<Rightarrow>
                          read_loop fetch region_x region_z offset n (response_data @ piece) s')))
      else (response_data, s))"
  by pat_completeness auto

termination
  by (relation "measure (\<lambda>(fetch, X, Z, offset, n, resp, s). n - length resp)")
     (auto intro!: slot_piece_progress)

declare read_loop.simps [simp del]

text \<open>The part of the answer that lies in the header.\<close>

definition read_header :: "('s, 'c) vf_env \<Rightarrow> u64 \<Rightarrow> nat \<Rightarrow> bytes" where
  "read_header E offset n =
     (if offset < HEADER_BYTES then
        let start_in_header = unat offset;
            end_in_header = min (start_in_header + n) (unat HEADER_BYTES)
        in if start_in_header < unat HEADER_BYTES
           then take (end_in_header - start_in_header) (drop start_in_header (header_cache E))
           else []
      else [])"

definition read_at ::
    "('s, 'c) vf_env \<Rightarrow> u64 \<Rightarrow> nat \<Rightarrow> i32 \<Rightarrow> i32 \<Rightarrow> ('s, 'c) vf_state \<Rightarrow> bytes \<times> ('s, 'c) vf_state" where
  "read_at E offset n region_x region_z s =
     (case read_loop (fetch_chunk E) region_x region_z offset n (read_header E offset n) s of
        (response_data, s) \<Rightarrow>
          let response_data =
                (if length response_data < n
                 then response_data @ zeros (n - length response_data) else response_data);
              s = note_elapsed (\<lambda>d. record_fuse_request d (length response_data)) E s
          in (response_data, s))"

subsection \<open>Writing\<close>

definition write_at ::
    "('s, 'c) vf_env \<Rightarrow> u64 \<Rightarrow> bytes \<Rightarrow> i32 \<Rightarrow> i32 \<Rightarrow> ('s, 'c) vf_state \<Rightarrow> ('s, 'c) vf_state" where
  "write_at E offset data region_x region_z s =
     (if offset \<ge> HEADER_BYTES then
        case get_chunk_coords_from_offset offset of
          None \<Rightarrow> s
        | Some (rel_x, rel_z) \<Rightarrow>
            (case unwrap_and_decompress_chunk (compressor E) data of
               Inl e \<Rightarrow> s
             | Inr raw_nbt \<Rightarrow>
                 let abs_x = region_x * 32 + rel_x;
                     abs_z = region_z * 32 + rel_z;
                     (save_x, save_z) =
                       (case verify_chunk_coords (fastnbt E) raw_nbt abs_x abs_z of
                          Inr _ \<Rightarrow> (abs_x, abs_z)
                        | Inl e \<Rightarrow> real_coords (fastnbt E) raw_nbt abs_x abs_z)
                 in (case storage E of
                       None \<Rightarrow> s
                     | Some ops \<Rightarrow>
                         (case save_chunk ops save_x save_z raw_nbt (store s) of
                            (result, d) \<Rightarrow>
                              let s = note_elapsed record_save E (s\<lparr>store := d\<rparr>)
                              in (case result of
                                    Inl e \<Rightarrow> s
                                  | Inr _ \<Rightarrow>
                                      (case compress_and_wrap_chunk (compressor E) raw_nbt of
                                         None \<Rightarrow> s
                                       | Some new_blob \<Rightarrow>
                                           s\<lparr>cache := lru_put (cache_ops E) (save_x, save_z) new_blob (cache s)\<rparr>)))))
      else s)"

subsection \<open>A prefetch task\<close>

text \<open>
  The task spawned for one neighbour, cut at its awaits and its critical sections: other threads
  may run between any two steps. \<open>joined\<close> is whether \<open>spawn_blocking\<close> delivers the generator's
  result; it does not if the runtime is shut down. (A panic of the generator, which would be a join
  error where panics unwind, ends the process in a release build.) A finished task holds no permit.
\<close>

datatype task =
    Check_cache chunk_pos
  | Await_permit chunk_pos
  | Check_again chunk_pos
  | Check_db chunk_pos
  | Generate chunk_pos
  | Save_db chunk_pos bytes
  | Fill_cache chunk_pos bytes
  | Finished

fun task_step ::
    "('s, 'c) vf_env \<Rightarrow> bool \<Rightarrow> task \<Rightarrow> ('s, 'c) vf_state \<Rightarrow> (task \<times> ('s, 'c) vf_state) option" where
  "task_step E joined (Check_cache p) s =
     Some (if lru_contains (cache_ops E) p (cache s) then Finished else Await_permit p, s)"
| "task_step E joined (Await_permit p) s =
     (if permits s = 0 then None else Some (Check_again p, s\<lparr>permits := permits s - 1\<rparr>))"
| "task_step E joined (Check_again p) s =
     Some (if lru_contains (cache_ops E) p (cache s)
           then (Finished, s\<lparr>permits := Suc (permits s)\<rparr>) else (Check_db p, s))"
| "task_step E joined (Check_db p) s =
     Some (case storage E of
             None \<Rightarrow> (Generate p, s)
           | Some ops \<Rightarrow>
               (case load_chunk ops (fst p) (snd p) (store s) of
                  (Inr (Some raw), d) \<Rightarrow> (Finished, (after_load (Inr (Some raw)) d s)\<lparr>permits := Suc (permits s)\<rparr>)
                | (r, d) \<Rightarrow> (Generate p, after_load r d s)))"
| "task_step E joined (Generate p) s =
     Some (case generate_timed E (fst p) (snd p) s of
             (res, s) \<Rightarrow>
               (case (joined, res) of
                  (True, Inr nbt) \<Rightarrow> (Save_db p nbt, s)
                | _ \<Rightarrow> (Finished, s\<lparr>permits := Suc (permits s)\<rparr>)))"
| "task_step E joined (Save_db p nbt) s =
     Some (case storage E of
             None \<Rightarrow> (Fill_cache p nbt, s)
           | Some ops \<Rightarrow>
               (Fill_cache p nbt, s\<lparr>store := snd (save_chunk ops (fst p) (snd p) nbt (store s))\<rparr>))"
| "task_step E joined (Fill_cache p nbt) s =
     Some (Finished,
       (case compress_and_wrap_chunk (compressor E) nbt of
          None \<Rightarrow> s
        | Some blob \<Rightarrow> s\<lparr>cache := lru_put (cache_ops E) p blob (cache s)\<rparr>)
       \<lparr>permits := Suc (permits s)\<rparr>)"
| "task_step E joined Finished s = None"

text \<open>A task that runs to its end with nothing in between: seven steps are enough. It stops where
  it waits if there is no permit.\<close>

fun run_task ::
    "nat \<Rightarrow> ('s, 'c) vf_env \<Rightarrow> task \<Rightarrow> ('s, 'c) vf_state \<Rightarrow> task \<times> ('s, 'c) vf_state" where
  "run_task 0 E t s = (t, s)"
| "run_task (Suc n) E t s =
     (case task_step E True t s of None \<Rightarrow> (t, s) | Some (t', s') \<Rightarrow> run_task n E t' s')"

definition prefetch :: "('s, 'c) vf_env \<Rightarrow> chunk_pos \<Rightarrow> ('s, 'c) vf_state \<Rightarrow> ('s, 'c) vf_state" where
  "prefetch E p s = snd (run_task 7 E (Check_cache p) s)"

end
