(* ===== verification/File_Image.thy ===== *)
theory File_Image
  imports Virtual_File
begin

text \<open>
  What a region file contains, as a function of the chunks' blobs, and the proof that the read
  loop of \<open>virtual_file.rs\<close> returns a slice of it. The locale \<open>chunk_source\<close> is what the loop
  needs of the function that fetches blobs; the interpretations are in \<open>Coherence\<close>.
\<close>

subsection \<open>The image\<close>

text \<open>An image gives each chunk its blob, or none if it cannot be had. Behind a blob its slot is
  zero.\<close>

type_synonym image = "chunk_pos \<rightharpoonup> bytes"

definition slot_byte :: "bytes \<Rightarrow> nat \<Rightarrow> u8" where
  "slot_byte blob i = (if i < length blob then blob ! i else 0)"

definition data_byte :: "image \<Rightarrow> i32 \<Rightarrow> i32 \<Rightarrow> u64 \<Rightarrow> u8 option" where
  "data_byte img region_x region_z off =
     (case get_chunk_coords_from_offset off of
        None \<Rightarrow> None
      | Some (x, z) \<Rightarrow>
          map_option (\<lambda>b. slot_byte b (unat off - unat (get_chunk_file_offset x z)))
            (img (region_x * 32 + x, region_z * 32 + z)))"

definition file_byte :: "image \<Rightarrow> i32 \<Rightarrow> i32 \<Rightarrow> u64 \<Rightarrow> u8 option" where
  "file_byte img region_x region_z off =
     (if unat off < header_len then Some (generate_header ! unat off)
      else data_byte img region_x region_z off)"

text \<open>The longest prefix of at most \<open>n\<close> bytes that are all there, and the same filled up with
  zeros: the answer to a read.\<close>

primrec available :: "nat \<Rightarrow> (nat \<Rightarrow> u8 option) \<Rightarrow> bytes" where
  "available 0 f = []"
| "available (Suc n) f =
     (case f 0 of None \<Rightarrow> [] | Some b \<Rightarrow> b # available n (\<lambda>i. f (Suc i)))"

definition file_slice :: "image \<Rightarrow> i32 \<Rightarrow> i32 \<Rightarrow> u64 \<Rightarrow> nat \<Rightarrow> bytes" where
  "file_slice img region_x region_z off n =
     (let bs = available n (\<lambda>i. file_byte img region_x region_z (off + of_nat i))
      in bs @ zeros (n - length bs))"

lemma length_available: "length (available n f) \<le> n"
  by (induction n arbitrary: f) (auto split: option.split)

lemma available_None [simp]: "f 0 = None \<Longrightarrow> available n f = []"
  by (cases n) simp_all

lemma available_all: "(\<And>i. i < n \<Longrightarrow> f i = Some (g i)) \<Longrightarrow> available n f = map g [0..<n]"
proof (induction n arbitrary: f g)
  case (Suc n)
  have "available n (\<lambda>i. f (Suc i)) = map (\<lambda>i. g (Suc i)) [0..<n]"
    using Suc.prems by (intro Suc.IH) simp
  with Suc.prems [of 0] show ?case by (simp add: map_upt_Suc del: upt_Suc)
qed simp

lemma available_append:
  assumes "\<And>i. i < length p \<Longrightarrow> f i = Some (p ! i)" and "length p \<le> n"
  shows "available n f = p @ available (n - length p) (\<lambda>i. f (length p + i))"
  using assms
proof (induction p arbitrary: f n)
  case (Cons b p)
  then obtain m where n: "n = Suc m" by (cases n) auto
  have f: "f (Suc i) = Some (p ! i)" if "i < length p" for i
    using Cons.prems(1) [of "Suc i"] that by simp
  have "available m (\<lambda>i. f (Suc i)) = p @ available (m - length p) (\<lambda>i. f (Suc (length p + i)))"
    using Cons.IH [of "\<lambda>i. f (Suc i)" m] f Cons.prems(2) n by simp
  with Cons.prems(1) [of 0] n show ?case by simp
qed simp

lemma available_cong: "(\<And>i. i < n \<Longrightarrow> f i = g i) \<Longrightarrow> available n f = available n g"
proof (induction n arbitrary: f g)
  case (Suc n)
  then have "available n (\<lambda>i. f (Suc i)) = available n (\<lambda>i. g (Suc i))" by (intro Suc.IH) simp
  with Suc.prems [of 0] show ?case by (simp split: option.split)
qed simp

lemma length_file_slice [simp]: "length (file_slice img X Z off n) = n"
  using length_available [of n] by (simp add: file_slice_def Let_def)

subsection \<open>One piece of a slot\<close>

lemma unat_add_in_file:
  "unat (off :: u64) + i < file_len + 2 ^ 32 \<Longrightarrow> unat (off + of_nat i) = unat off + i"
  by (simp add: unat_word_ariths unat_of_nat)

lemma slot_piece_image:
  assumes at: "get_chunk_coords_from_offset off = Some (x, z)" and fits: "length b \<le> slot_bytes"
  obtains p where "slot_piece x z off needed b = Some p" and "length p \<le> needed"
    and "\<And>i. i < length p \<Longrightarrow> get_chunk_coords_from_offset (off + of_nat i) = Some (x, z)"
    and "\<And>i. i < length p \<Longrightarrow>
      p ! i = slot_byte b (unat (off + of_nat i) - unat (get_chunk_file_offset x z))"
proof -
  let ?start = "get_chunk_file_offset x z"
  let ?l = "unat off - unat ?start"
  let ?m = "min ((if ?l < length b then length b else slot_bytes) - ?l) needed"
  let ?p = "map (\<lambda>i. slot_byte b (?l + i)) [0..<?m]"
  have rel: "rel_pos (x, z)" and lo: "unat ?start \<le> unat off" and hi: "unat off < unat ?start + slot_bytes"
    using coords_SomeD [OF at] by simp_all
  have l: "unat (off - ?start) = ?l" and room: "unat (?start + SECTORS_PER_CHUNK * SECTOR_BYTES - off) = slot_bytes - ?l"
    using lo hi by (simp_all add: unat_sub word_le_nat_alt slot_end)
  have step: "unat (off + of_nat i) = unat off + i"
    and own: "get_chunk_coords_from_offset (off + of_nat i) = Some (x, z)" if "i < ?m" for i
  proof -
    have i: "unat off + i < unat ?start + slot_bytes"
      using that lo hi fits by (auto split: if_splits)
    then show "unat (off + of_nat i) = unat off + i"
      using slot_in_file [of x z] by (intro unat_add_in_file) simp
    with i lo show "get_chunk_coords_from_offset (off + of_nat i) = Some (x, z)"
      by (simp add: coords_Some_iff [OF rel] del: of_nat_add)
  qed
  have "slot_piece x z off needed b = Some ?p"
  proof (cases "?l < length b")
    case True
    then have "take ?m (drop ?l b) = ?p"
      by (intro nth_equalityI) (auto simp: slot_byte_def)
    with True lo show ?thesis by (simp add: slot_piece_def Let_def word_le_nat_alt l)
  next
    case False
    then have "zeros ?m = ?p"
      by (intro nth_equalityI) (auto simp: slot_byte_def)
    with False lo hi show ?thesis
      by (simp add: slot_piece_def Let_def word_le_nat_alt l room slot_end)
  qed
  then show ?thesis
    by (rule that) (use lo in \<open>auto simp: own step\<close>)
qed

subsection \<open>The read loop over a source of blobs\<close>

text \<open>What the loop needs: in a state of the invariant a fetch returns the chunk's blob of the
  state's image, changes neither, and no blob is longer than its slot.\<close>

locale chunk_source =
  fixes fetch :: "i32 \<Rightarrow> i32 \<Rightarrow> 'st \<Rightarrow> bytes option \<times> 'st"
    and image :: "'st \<Rightarrow> image"
    and invar :: "'st \<Rightarrow> bool"
  assumes fetch_image: "invar s \<Longrightarrow> fst (fetch x z s) = image s (x, z)"
    and fetch_frame: "invar s \<Longrightarrow> image (snd (fetch x z s)) = image s"
    and fetch_invar: "invar s \<Longrightarrow> invar (snd (fetch x z s))"
    and fits: "invar s \<Longrightarrow> image s p = Some b \<Longrightarrow> length b \<le> slot_bytes"
begin

lemma read_loop_image:
  assumes "invar s" and "length resp \<le> n" and "read_loop fetch X Z off n resp s = (r, s')"
  shows "r = resp @ available (n - length resp) (\<lambda>i. data_byte (image s) X Z (off + of_nat (length resp + i))) \<and>
    image s' = image s \<and> invar s'"
  using assms
proof (induction "n - length resp" arbitrary: resp s rule: less_induct)
  case less
  let ?f = "\<lambda>i. data_byte (image s) X Z (off + of_nat (length resp + i))"
  show ?case
  proof (cases "length resp < n")
    case False
    then show ?thesis using less.prems by (simp add: read_loop.simps [of fetch X Z off n resp s])
  next
    case True
    let ?o = "off + of_nat (length resp)"
    note loop = less.prems(3) [unfolded read_loop.simps [of fetch X Z off n resp s]]
    show ?thesis
    proof (cases "get_chunk_coords_from_offset ?o")
      case None
      then have "?f 0 = None" by (simp add: data_byte_def)
      with None loop less.prems True show ?thesis by simp
    next
      case (Some c)
      obtain x z where c: "c = (x, z)" by (cases c)
      let ?x = "X * 32 + x" and ?z = "Z * 32 + z"
      obtain b s1 where fetch: "fetch ?x ?z s = (b, s1)" by (cases "fetch ?x ?z s")
      have b: "b = image s (?x, ?z)" and s1: "image s1 = image s" "invar s1"
        using fetch_image [OF less.prems(1), of ?x ?z] fetch_frame [OF less.prems(1), of ?x ?z]
          fetch_invar [OF less.prems(1), of ?x ?z] fetch by simp_all
      show ?thesis
      proof (cases b)
        case None
        then have "?f 0 = None" using Some c b by (simp add: data_byte_def)
        with None Some c loop fetch s1 True show ?thesis by (simp add: Let_def)
      next
        case (Some blob)
        have at: "get_chunk_coords_from_offset ?o = Some (x, z)"
          using \<open>get_chunk_coords_from_offset ?o = Some c\<close> c by simp
        have img: "image s (?x, ?z) = Some blob" using b Some by simp
        obtain p where p: "slot_piece x z ?o (n - length resp) blob = Some p"
          and len: "length p \<le> n - length resp"
          and own: "\<And>i. i < length p \<Longrightarrow> get_chunk_coords_from_offset (?o + of_nat i) = Some (x, z)"
          and val: "\<And>i. i < length p \<Longrightarrow>
            p ! i = slot_byte blob (unat (?o + of_nat i) - unat (get_chunk_file_offset x z))"
          using slot_piece_image [OF at fits [OF less.prems(1) img], where needed = "n - length resp"] by blast
        have progress: "n - length (resp @ p) < n - length resp"
          using slot_piece_progress [OF at True p] by simp
        have rec: "read_loop fetch X Z off n (resp @ p) s1 = (r, s')"
          using loop True at fetch Some p by (simp add: Let_def)
        have "length (resp @ p) \<le> n" using len True by simp
        note IH = less.hyps [OF progress s1(2) this rec, unfolded s1]
        have "?f i = Some (p ! i)" if "i < length p" for i
          using own [OF that] val [OF that] img
          by (simp add: data_byte_def add.assoc del: of_nat_add) (simp add: add.assoc)
        from available_append [OF this len] IH show ?thesis
          by (simp add: add.assoc)
      qed
    qed
  qed
qed

end

end
