(* ===== verification/Coherence.thy ===== *)
theory Coherence
  imports File_Image
begin

text \<open>
  The virtual file serves one image: cache, storage and generator agree on every chunk's blob.
  \<open>blob_image\<close> is the image a state stands for, \<open>served\<close> the invariant under which fetches, reads,
  writes and prefetches keep to it, and \<open>run_requests\<close> the refinement: whatever sequence of requests
  is served, each read answers with a slice of the image that the writes before it have made.

  The storage enters through its contract \<open>chunk_storage\<close>, with \<open>cont\<close> its contents and \<open>eff\<close> the
  effect of its saves; \<open>entries\<close> are the entries of the cache.
\<close>

subsection \<open>The image of a state\<close>

definition generated_nbt :: "('s, 'c) vf_env \<Rightarrow> chunk_pos \<Rightarrow> bytes option" where
  "generated_nbt E p = (case fst (generate_chunk E (fst p) (snd p) 0) of Inl e \<Rightarrow> None | Inr d \<Rightarrow> Some d)"

definition good_nbt :: "('s, 'c) vf_env \<Rightarrow> chunk_pos \<Rightarrow> bytes \<Rightarrow> bool" where
  "good_nbt E p d \<longleftrightarrow> declared_coords (fastnbt E) d = Some p"

definition blob_of :: "('s, 'c) vf_env \<Rightarrow> chunk_pos \<Rightarrow> bytes option \<Rightarrow> bytes option" where
  "blob_of E p nbt =
     (case nbt of
        None \<Rightarrow> None
      | Some d \<Rightarrow> if good_nbt E p d then compress_and_wrap_chunk (compressor E) d else None)"

definition served_nbt :: "('s, 'c) vf_env \<Rightarrow> (chunk_pos \<rightharpoonup> bytes) \<Rightarrow> chunk_pos \<Rightarrow> bytes option" where
  "served_nbt E m p =
     (case m p of
        Some raw \<Rightarrow> if good_nbt E p raw then Some raw else generated_nbt E p
      | None \<Rightarrow> generated_nbt E p)"

definition blob_image ::
    "('s, 'c) vf_env \<Rightarrow> ('s \<Rightarrow> chunk_pos \<rightharpoonup> bytes) \<Rightarrow> ('s, 'c) vf_state \<Rightarrow> image" where
  "blob_image E cont s p = blob_of E p (served_nbt E (cont (store s)) p)"

lemma verify_good: "verify_chunk_coords (fastnbt E) d x z = Inr () \<longleftrightarrow> good_nbt E (x, z) d"
  by (simp add: good_nbt_def verify_chunk_coords_declared)

lemma blob_image_cong: "cont (store s') = cont (store s) \<Longrightarrow> blob_image E cont s' = blob_image E cont s"
  by (rule ext) (simp add: blob_image_def)

subsection \<open>The invariant\<close>

text \<open>The surroundings: the cache's laws, the fixed header, a generator whose result depends on the
  coordinates only, and a storage that keeps its contract and does not fail to load what it
  has.\<close>

definition env_ok ::
    "('s, 'c) vf_env \<Rightarrow> ('c \<Rightarrow> chunk_pos \<rightharpoonup> bytes) \<Rightarrow> ('s \<Rightarrow> chunk_pos \<rightharpoonup> bytes) \<Rightarrow>
     (bytes \<Rightarrow> bytes option option) \<Rightarrow> ('s \<Rightarrow> bool) \<Rightarrow> bool" where
  "env_ok E entries cont eff sinv \<longleftrightarrow>
     lru_ok (cache_ops E) entries \<and>
     header_cache E = generate_header \<and>
     (\<forall>x z t. fst (generate_chunk E x z t) = fst (generate_chunk E x z 0)) \<and>
     (case storage E of
        None \<Rightarrow> \<forall>s. cont s = Map.empty
      | Some ops \<Rightarrow> chunk_storage ops cont eff sinv \<and>
          (\<forall>s x z e. sinv s \<longrightarrow> fst (load_chunk ops x z s) = Inl e \<longrightarrow> cont s (x, z) = None))"

definition served ::
    "('s, 'c) vf_env \<Rightarrow> ('c \<Rightarrow> chunk_pos \<rightharpoonup> bytes) \<Rightarrow> ('s \<Rightarrow> chunk_pos \<rightharpoonup> bytes) \<Rightarrow>
     (bytes \<Rightarrow> bytes option option) \<Rightarrow> ('s \<Rightarrow> bool) \<Rightarrow> ('s, 'c) vf_state \<Rightarrow> bool" where
  "served E entries cont eff sinv s \<longleftrightarrow>
     env_ok E entries cont eff sinv \<and> sinv (store s) \<and>
     entries (cache s) \<subseteq>\<^sub>m blob_image E cont s \<and>
     (\<forall>p b. blob_image E cont s p = Some b \<longrightarrow> length b \<le> slot_bytes)"

lemma lru_okD:
  assumes "lru_ok C entries"
  shows "entries (lru_new C n) = Map.empty"
    and "fst (lru_get C k c) = entries c k"
    and "entries (snd (lru_get C k c)) = entries c"
    and "entries (lru_put C k b c) k = Some b"
    and "entries (lru_put C k b c) \<subseteq>\<^sub>m (entries c)(k \<mapsto> b)"
    and "lru_contains C k c \<longleftrightarrow> entries c k \<noteq> None"
  using assms unfolding lru_ok_def by blast+

lemma env_okD:
  assumes "env_ok E entries cont eff sinv"
  shows "lru_ok (cache_ops E) entries" and "header_cache E = generate_header"
    and "fst (generate_chunk E x z t) = fst (generate_chunk E x z 0)"
    and "storage E = None \<Longrightarrow> cont s = Map.empty"
    and "storage E = Some ops \<Longrightarrow> chunk_storage ops cont eff sinv"
    and "storage E = Some ops \<Longrightarrow> sinv s \<Longrightarrow> fst (load_chunk ops x z s) = Inl e \<Longrightarrow> cont s (x, z) = None"
proof -
  note parts = assms [unfolded env_ok_def]
  show "lru_ok (cache_ops E) entries" "header_cache E = generate_header" using parts by blast+
  show "fst (generate_chunk E x z t) = fst (generate_chunk E x z 0)"
    by (rule parts [THEN conjunct2, THEN conjunct2, THEN conjunct1, rule_format])
  note st = parts [THEN conjunct2, THEN conjunct2, THEN conjunct2]
  show "storage E = None \<Longrightarrow> cont s = Map.empty" using st by simp
  show "storage E = Some ops \<Longrightarrow> chunk_storage ops cont eff sinv" using st by simp
  show "storage E = Some ops \<Longrightarrow> sinv s \<Longrightarrow> fst (load_chunk ops x z s) = Inl e \<Longrightarrow> cont s (x, z) = None"
    using st by simp
qed

lemma servedD:
  assumes "served E entries cont eff sinv s"
  shows "env_ok E entries cont eff sinv" and "sinv (store s)"
    and "entries (cache s) \<subseteq>\<^sub>m blob_image E cont s"
    and "blob_image E cont s p = Some b \<Longrightarrow> length b \<le> slot_bytes"
  using assms unfolding served_def by blast+

text \<open>A step that keeps the storage's contents and puts nothing but the image into the cache keeps
  the invariant.\<close>

lemma served_frame:
  assumes "served E entries cont eff sinv s" and "cont (store s') = cont (store s)" and "sinv (store s')"
    and "entries (cache s') \<subseteq>\<^sub>m blob_image E cont s"
  shows "served E entries cont eff sinv s'"
  using assms blob_image_cong [of cont s' s E] unfolding served_def by simp

lemma put_image:
  assumes "lru_ok C entries" and "entries c \<subseteq>\<^sub>m img" and "img p = Some b"
  shows "entries (lru_put C p b c) \<subseteq>\<^sub>m img"
proof -
  have "entries (lru_put C p b c) \<subseteq>\<^sub>m (entries c)(p \<mapsto> b)" by (rule lru_okD(5) [OF assms(1)])
  also have "(entries c)(p \<mapsto> b) \<subseteq>\<^sub>m img" using assms(2,3) by (auto simp: map_le_def)
  finally show ?thesis .
qed

lemma note_simps [simp]:
  "store (note_metrics ops s) = store s" "cache (note_metrics ops s) = cache s"
  "permits (note_metrics ops s) = permits s" "spawned (note_metrics ops s) = spawned s"
  "ticks (note_metrics ops s) = ticks s"
  "store (note_elapsed f E s) = store s" "cache (note_elapsed f E s) = cache s"
  "permits (note_elapsed f E s) = permits s" "spawned (note_elapsed f E s) = spawned s"
  "store (trigger_prefetch E x z s) = store s" "cache (trigger_prefetch E x z s) = cache s"
  "permits (trigger_prefetch E x z s) = permits s"
  by (simp_all add: note_metrics_def note_elapsed_def trigger_prefetch_def)

subsection \<open>Fetching\<close>

lemma generate_timed_result:
  assumes "env_ok E entries cont eff sinv" and "generate_timed E x z s = (r, s')"
  shows "r = fst (generate_chunk E x z 0) \<and> store s' = store s \<and> cache s' = cache s"
proof -
  obtain res ops where g: "generate_chunk E x z (ticks s) = (res, ops)" by fastforce
  then have "res = fst (generate_chunk E x z 0)"
    using env_okD(3) [OF assms(1), of x z "ticks s"] by simp
  with assms(2) g show ?thesis by (auto simp: generate_timed_def)
qed

lemma generated_cases: "ok_value (fst (generate_chunk E x z 0)) = generated_nbt E (x, z)"
  by (simp add: generated_nbt_def split: sum.split)

text \<open>What a load finds is what is stored, or nothing if it fails.\<close>

lemma storage_load:
  assumes env: "env_ok E entries cont eff sinv" and st: "storage E = Some ops" and sto: "sinv s"
    and load: "load_chunk ops x z s = (r, d)"
  shows "cont d = cont s \<and> sinv d \<and> cont s (x, z) = (case r of Inl e \<Rightarrow> None | Inr found \<Rightarrow> found)"
proof -
  note cs = env_okD(5) [OF env st]
  have "cont s (x, z) = (case r of Inl e \<Rightarrow> None | Inr found \<Rightarrow> found)"
    using chunk_storage.load_ok [OF cs sto, of x z _ d] env_okD(6) [OF env st sto, of x z] load
    by (cases r) auto
  then show ?thesis
    using chunk_storage.load_frame [OF cs sto, of x z] chunk_storage.invar_load [OF cs sto, of x z] load by simp
qed

lemma load_or_generate_result:
  assumes env: "env_ok E entries cont eff sinv" and inv: "sinv (store s)"
    and run: "load_or_generate E x z s = (r, s')"
  shows "ok_value r = served_nbt E (cont (store s)) (x, z) \<and>
    cont (store s') = cont (store s) \<and> sinv (store s') \<and> cache s' = cache s"
proof (cases "storage E")
  case None
  then have "cont (store s) = Map.empty" using env_okD(4) [OF env None] by blast
  then show ?thesis
    using None run generate_timed_result [OF env, of x z s r s'] inv
    by (simp add: load_or_generate_def served_nbt_def generated_cases)
next
  case (Some ops)
  obtain sd d where load: "load_chunk ops x z (store s) = (sd, d)" by fastforce
  note d = storage_load [OF env Some inv load]
  let ?s1 = "note_elapsed record_load E (after_load sd d s)"
  have gen: "ok_value r = generated_nbt E (x, z) \<and>
      cont (store s') = cont (store s) \<and> sinv (store s') \<and> cache s' = cache s"
    if "generate_timed E x z ?s1 = (r, s')"
    using generate_timed_result [OF env that] d by (simp add: generated_cases)
  consider (bad) "\<forall>raw. cont (store s) (x, z) = Some raw \<longrightarrow> \<not> good_nbt E (x, z) raw"
    | (good) raw where "cont (store s) (x, z) = Some raw" "good_nbt E (x, z) raw" by blast
  then show ?thesis
  proof cases
    case bad
    then have "generate_timed E x z ?s1 = (r, s')"
      using run Some load d
      by (auto simp: load_or_generate_def Let_def simp flip: verify_good split: sum.splits option.splits)
    moreover have "served_nbt E (cont (store s)) (x, z) = generated_nbt E (x, z)"
      using bad by (auto simp: served_nbt_def split: option.split)
    ultimately show ?thesis using gen by simp
  next
    case (good raw)
    then have "sd = Inr (Some raw)" and "verify_chunk_coords (fastnbt E) raw x z = Inr ()"
      using d by (auto simp: verify_good split: sum.splits)
    then show ?thesis
      using run Some load d good by (auto simp: load_or_generate_def served_nbt_def Let_def)
  qed
qed

lemma fetch_served:
  assumes inv: "served E entries cont eff sinv s" and run: "fetch_chunk E x z s = (r, s')"
  shows "r = blob_image E cont s (x, z) \<and> cont (store s') = cont (store s) \<and>
    served E entries cont eff sinv s'"
proof -
  note env = servedD(1) [OF inv] and sto = servedD(2) [OF inv] and coh = servedD(3) [OF inv]
  note lru = env_okD(1) [OF env]
  let ?C = "cache_ops E" and ?k = "(x, z)" and ?img = "blob_image E cont s"
  obtain hit c where get: "lru_get ?C ?k (cache s) = (hit, c)" by fastforce
  have hit: "hit = entries (cache s) ?k" and c: "entries c = entries (cache s)"
    using lru_okD(2,3) [OF lru, of ?k "cache s"] get by simp_all
  show ?thesis
  proof (cases hit)
    case (Some blob)
    then have "?img ?k = Some blob" using hit coh by (metis map_le_def domI)
    moreover have s': "r = Some blob" "s' = note_metrics record_cache_hit (s\<lparr>cache := c\<rparr>)"
      using run get Some by (simp_all add: fetch_chunk_def)
    moreover have "served E entries cont eff sinv s'"
      by (rule served_frame [OF inv]) (simp_all add: s'(2) sto c coh)
    ultimately show ?thesis by simp
  next
    case None
    let ?s1 = "note_metrics record_cache_miss (s\<lparr>cache := c\<rparr>)"
    obtain res s2 where lg: "load_or_generate E x z ?s1 = (res, s2)" by fastforce
    have res: "ok_value res = served_nbt E (cont (store s)) ?k"
      and s2: "cont (store s2) = cont (store s)" "sinv (store s2)" "cache s2 = c"
      using load_or_generate_result [OF env _ lg] sto by simp_all
    note fetch = run [unfolded fetch_chunk_def get prod.case None option.case lg]
    show ?thesis
    proof (cases "?img ?k")
      case None
      have "r = None \<and> store s' = store s2 \<and> cache s' = cache s2"
        using fetch None res [symmetric]
        by (cases res) (auto simp: blob_image_def blob_of_def Let_def simp flip: verify_good
            split: option.splits if_splits sum.splits)
      then show ?thesis
        using None served_frame [OF inv, of s'] s2 c coh by simp
    next
      case (Some blob)
      then obtain d where d: "served_nbt E (cont (store s)) ?k = Some d" and good: "good_nbt E ?k d"
        and blob: "compress_and_wrap_chunk (compressor E) d = Some blob"
        by (auto simp: blob_image_def blob_of_def split: option.splits if_splits)
      have "verify_chunk_coords (fastnbt E) d x z = Inr ()" using good by (simp add: verify_good)
      then have s': "r = Some blob \<and> store s' = store s2 \<and> cache s' = lru_put ?C ?k blob c"
        using fetch res d blob s2(3) by (auto simp: Let_def split: if_splits)
      moreover have "entries (lru_put ?C ?k blob c) \<subseteq>\<^sub>m ?img"
        by (rule put_image [where img = ?img, OF lru _ Some]) (simp add: c coh)
      ultimately show ?thesis
        using Some served_frame [OF inv, of s'] s2 by simp
    qed
  qed
qed

text \<open>The contents of the storage stay as they are, too: \<open>m\<close>.\<close>

interpretation vf: chunk_source "fetch_chunk E" "blob_image E cont"
  "\<lambda>s. served E entries cont eff sinv s \<and> cont (store s) = m"
  for E entries cont eff sinv m
proof (unfold_locales, goal_cases)
  case (1 s x z)
  then show ?case using fetch_served [OF conjunct1 [OF 1] prod.collapse [symmetric]] by blast
next
  case (2 s x z)
  then show ?case using fetch_served [OF conjunct1 [OF 2] prod.collapse [symmetric]] blob_image_cong by blast
next
  case (3 s x z)
  then show ?case using fetch_served [OF conjunct1 [OF 3] prod.collapse [symmetric]] by metis
next
  case (4 s p b)
  then show ?case using servedD(4) by blast
qed

subsection \<open>Reading\<close>

text \<open>The header part and the part after it are one slice of the file.\<close>

definition header_part :: "u64 \<Rightarrow> nat \<Rightarrow> bytes" where
  "header_part off n =
     (if off < HEADER_BYTES
      then take (min (unat off + n) header_len - unat off) (drop (unat off) generate_header) else [])"

lemma header_part_length:
  "length (header_part off n) = (if unat off < header_len then min n (header_len - unat off) else 0)"
  by (auto simp: header_part_def HEADER_BYTES_def word_less_nat_alt min_def)

lemma header_part_byte:
  assumes "n < 2 ^ 32" and i: "i < length (header_part off n)"
  shows "file_byte img X Z (off + of_nat i) = Some (header_part off n ! i)"
proof -
  have lo: "unat off < header_len" and i': "i < n" "unat off + i < header_len"
    using i by (auto simp: header_part_length less_diff_conv add.commute split: if_splits)
  have "unat (off + of_nat i) = unat off + i" using i' by (intro unat_add_in_file) simp
  then show ?thesis
    using lo i' i by (simp add: file_byte_def header_part_def HEADER_BYTES_def word_less_nat_alt del: of_nat_add)
qed

lemma header_part_end:
  assumes "length (header_part off n) < n"
  shows "header_len \<le> unat (off + of_nat (length (header_part off n)))"
proof (cases "unat off < header_len")
  case True
  then have len: "length (header_part off n) = header_len - unat off" using assms by (simp add: header_part_length)
  then have "unat (off + of_nat (length (header_part off n))) = unat off + (header_len - unat off)"
    using True by (subst len, intro unat_add_in_file) simp
  with True show ?thesis by simp
qed (simp add: header_part_length)

lemma file_slice_split:
  assumes "n < 2 ^ 32"
  shows "available n (\<lambda>i. file_byte img X Z (off + of_nat i)) =
    header_part off n @
      available (n - length (header_part off n)) (\<lambda>i. data_byte img X Z (off + of_nat (length (header_part off n) + i)))"
proof (cases "unat off < header_len")
  case True
  let ?h = "header_part off n"
  have len: "length ?h = min n (header_len - unat off)" using True by (simp add: header_part_length)
  have unat: "unat (off + of_nat i) = unat off + i" if "i < n" for i
    using that assms(1) True by (intro unat_add_in_file) simp
  have "file_byte img X Z (off + of_nat i) = Some (?h ! i)" if "i < length ?h" for i
    by (rule header_part_byte [OF assms that])
  moreover have "length ?h \<le> n" using len by simp
  ultimately have "available n (\<lambda>i. file_byte img X Z (off + of_nat i)) =
      ?h @ available (n - length ?h) (\<lambda>i. file_byte img X Z (off + of_nat (length ?h + i)))"
    by (rule available_append)
  also have "available (n - length ?h) (\<lambda>i. file_byte img X Z (off + of_nat (length ?h + i))) =
      available (n - length ?h) (\<lambda>i. data_byte img X Z (off + of_nat (length ?h + i)))"
  proof (rule available_cong)
    fix i
    assume i: "i < n - length ?h"
    with len have "length ?h = header_len - unat off" by auto
    then show "file_byte img X Z (off + of_nat (length ?h + i)) = data_byte img X Z (off + of_nat (length ?h + i))"
      using i True unat [of "length ?h + i"] by (simp add: file_byte_def del: of_nat_add)
  qed
  finally show ?thesis .
next
  case False
  then have h: "header_part off n = []" by (simp add: header_part_def HEADER_BYTES_def word_less_nat_alt)
  show ?thesis
  proof (cases "unat off < file_len")
    case True
    have "file_byte img X Z (off + of_nat i) = data_byte img X Z (off + of_nat i)" if "i < n" for i
    proof -
      have "unat (off + of_nat i) = unat off + i"
        using that assms(1) True by (intro unat_add_in_file) simp
      with False show ?thesis by (simp add: file_byte_def del: of_nat_add)
    qed
    from available_cong [of n _ _, OF this] h show ?thesis by simp
  next
    case beyond: False
    then have "get_chunk_coords_from_offset off = None" by (simp add: coords_None_iff)
    with False h show ?thesis by (simp add: file_byte_def data_byte_def)
  qed
qed

lemma read_at_served:
  assumes inv: "served E entries cont eff sinv s" and n: "n < 2 ^ 32"
    and run: "read_at E off n X Z s = (r, s')"
  shows "r = file_slice (blob_image E cont s) X Z off n \<and> blob_image E cont s' = blob_image E cont s \<and>
    served E entries cont eff sinv s' \<and> cont (store s') = cont (store s)"
proof -
  let ?img = "blob_image E cont s"
  let ?h = "header_part off n"
  have header: "header_cache E = generate_header"
    by (rule env_okD(2) [OF servedD(1) [OF inv]])
  obtain d s1 where loop: "read_loop (fetch_chunk E) X Z off n ?h s = (d, s1)" by fastforce
  have h: "length ?h \<le> n" by (auto simp: header_part_def)
  have d: "d = ?h @ available (n - length ?h) (\<lambda>i. data_byte ?img X Z (off + of_nat (length ?h + i)))"
    and s1: "blob_image E cont s1 = ?img" "served E entries cont eff sinv s1" "cont (store s1) = cont (store s)"
    using vf.read_loop_image [OF conjI [OF inv refl] h loop] by simp_all
  have slice: "file_slice ?img X Z off n = d @ zeros (n - length d)"
    unfolding file_slice_def file_slice_split [OF n] d [symmetric] by (simp add: Let_def)
  have pad: "(if length d < n then d @ zeros (n - length d) else d) = d @ zeros (n - length d)"
    by simp
  have start: "read_header E off n = ?h"
    by (simp add: read_header_def Let_def header header_part_def HEADER_BYTES_def word_less_nat_alt)
  note run' = run [unfolded read_at_def Let_def, unfolded start loop prod.case pad]
  have r: "r = file_slice ?img X Z off n" using run' slice by simp
  obtain f where s': "s' = note_elapsed f E s1" using run' by blast
  have "served E entries cont eff sinv s'"
    by (rule served_frame [OF s1(2)]) (simp_all add: s' servedD [OF s1(2)])
  moreover have "blob_image E cont s' = blob_image E cont s1"
    by (rule blob_image_cong) (simp add: s')
  ultimately show ?thesis using r s1 by (simp add: s')
qed

subsection \<open>Writing\<close>

text \<open>What a write carries: the chunk whose blob it replaces, the chunk's NBT and the new blob; none
  if it is ignored or does not declare a chunk.\<close>

definition carried :: "('s, 'c) vf_env \<Rightarrow> u64 \<Rightarrow> bytes \<Rightarrow> (chunk_pos \<times> bytes \<times> bytes) option" where
  "carried E off data =
     (if get_chunk_coords_from_offset off = None then None
      else case unwrap_and_decompress_chunk (compressor E) data of
             Inl e \<Rightarrow> None
           | Inr raw \<Rightarrow>
               (case (declared_coords (fastnbt E) raw, compress_and_wrap_chunk (compressor E) raw) of
                  (Some p, Some b) \<Rightarrow> Some (p, raw, b)
                | _ \<Rightarrow> None))"

lemma carriedD:
  assumes "carried E off data = Some (p, raw, b)"
  shows "\<exists>c. get_chunk_coords_from_offset off = Some c" and "HEADER_BYTES \<le> off"
    and "unwrap_and_decompress_chunk (compressor E) data = Inr raw"
    and "good_nbt E p raw" and "compress_and_wrap_chunk (compressor E) raw = Some b"
proof -
  show at: "\<exists>c. get_chunk_coords_from_offset off = Some c"
    using assms by (auto simp: carried_def split: if_splits)
  then have "\<not> unat off < header_len"
    using coords_None_iff [of off] by auto
  then show "HEADER_BYTES \<le> off" by (simp add: HEADER_BYTES_def word_le_nat_alt)
  show "unwrap_and_decompress_chunk (compressor E) data = Inr raw" "good_nbt E p raw"
    "compress_and_wrap_chunk (compressor E) raw = Some b"
    using assms by (auto simp: carried_def good_nbt_def split: if_splits sum.splits option.splits)
qed

lemma save_target:
  assumes "good_nbt E p raw"
  shows "(case verify_chunk_coords (fastnbt E) raw x z of Inr _ \<Rightarrow> (x, z) | Inl e \<Rightarrow> real_coords (fastnbt E) raw x z) = p"
proof (cases "verify_chunk_coords (fastnbt E) raw x z")
  case (Inr u)
  then show ?thesis
    using assms verify_chunk_coords_declared [of "fastnbt E" raw x z u] by (simp add: good_nbt_def)
qed (use assms in \<open>simp add: real_coords_declared good_nbt_def\<close>)

text \<open>The write of a chunk, its save reporting success, as one step on the state.\<close>

lemma write_at_carried:
  assumes car: "carried E off data = Some (p, raw, b)" and st: "storage E = Some ops"
    and save: "save_chunk ops (fst p) (snd p) raw (store s) = (Inr (), d)"
  shows "store (write_at E off data X Z s) = d \<and>
    cache (write_at E off data X Z s) = lru_put (cache_ops E) p b (cache s)"
proof -
  note c = carriedD [OF car]
  obtain x z where at: "get_chunk_coords_from_offset off = Some (x, z)" using c(1) by fastforce
  obtain px pz where p: "p = (px, pz)" by (cases p)
  show ?thesis
    using save by (simp add: write_at_def at c st save_target [OF c(4)] p Let_def)
qed

lemma write_at_served:
  fixes X Z :: i32
  assumes inv: "served E entries cont eff sinv s"
    and car: "carried E off data = Some (p, raw, b)" and fits: "length b \<le> slot_bytes"
    and st: "storage E = Some ops" and eff: "eff raw = Some (Some raw)"
    and save: "save_chunk ops (fst p) (snd p) raw (store s) = (Inr (), d)"
  defines "s' \<equiv> write_at E off data X Z s"
  shows "blob_image E cont s' = (blob_image E cont s)(p \<mapsto> b) \<and> served E entries cont eff sinv s'"
proof -
  note env = servedD(1) [OF inv] and c = carriedD [OF car]
  note cs = env_okD(5) [OF env st]
  have s': "store s' = d" "cache s' = lru_put (cache_ops E) p b (cache s)"
    using write_at_carried [OF car st save, of X Z] by (simp_all add: s'_def)
  have cont: "cont d = (cont (store s))(p \<mapsto> raw)"
    using chunk_storage.save_ok [OF cs servedD(2) [OF inv] save] by (simp add: apply_effect_def eff)
  have sd: "sinv d"
    using chunk_storage.invar_save [OF cs servedD(2) [OF inv], of "fst p" "snd p" raw] save by simp
  have img: "blob_image E cont s' = (blob_image E cont s)(p \<mapsto> b)"
    using c(4,5) by (auto simp: fun_eq_iff blob_image_def served_nbt_def blob_of_def s' cont)
  have "entries (cache s') \<subseteq>\<^sub>m (entries (cache s))(p \<mapsto> b)"
    unfolding s' by (rule lru_okD(5) [OF env_okD(1) [OF env]])
  also have "(entries (cache s))(p \<mapsto> b) \<subseteq>\<^sub>m blob_image E cont s'"
    using servedD(3) [OF inv] unfolding img by (rule map_le_upd)
  finally have "served E entries cont eff sinv s'"
    using env sd fits servedD(4) [OF inv] unfolding served_def s'(1) img by simp
  with img show ?thesis by blast
qed

text \<open>Writes that change nothing.\<close>

lemma write_at_ignored:
  assumes "get_chunk_coords_from_offset off = None \<or>
    (\<exists>e. unwrap_and_decompress_chunk (compressor E) data = Inl e) \<or> storage E = None"
  shows "write_at E off data X Z s = s"
  using assms
  by (auto simp: write_at_def Let_def split: option.splits sum.splits prod.splits)

subsection \<open>Prefetching\<close>

text \<open>A prefetch task that is not interrupted keeps the image too: it generates only what the
  storage does not have, which is what a read would generate. It needs a generator whose chunks
  declare their own coordinates, since the task, unlike the read, does not check them.\<close>

text \<open>What a task knows of the storage at each of its steps: the chunk it is at work on is not stored,
  or, if another task was faster, stored as it was generated.\<close>

definition task_ok ::
    "('s, 'c) vf_env \<Rightarrow> ('s \<Rightarrow> chunk_pos \<rightharpoonup> bytes) \<Rightarrow> ('s, 'c) vf_state \<Rightarrow> task \<Rightarrow> bool" where
  "task_ok E cont s t =
     (case t of
        Generate p \<Rightarrow> cont (store s) p \<in> {None, generated_nbt E p}
      | Save_db p d \<Rightarrow> cont (store s) p \<in> {None, Some d} \<and> generated_nbt E p = Some d
      | Fill_cache p d \<Rightarrow> cont (store s) p \<in> {None, Some d} \<and> generated_nbt E p = Some d
      | _ \<Rightarrow> True)"

definition honest_generator :: "('s, 'c) vf_env \<Rightarrow> (bytes \<Rightarrow> bytes option option) \<Rightarrow> bool" where
  "honest_generator E eff \<longleftrightarrow>
     (\<forall>p d. generated_nbt E p = Some d \<longrightarrow> good_nbt E p d \<and> eff d = Some (Some d))"

lemma cont_generated:
  assumes "honest_generator E eff" and "cont (store s) p \<in> {None, Some d}" and "generated_nbt E p = Some d"
    and "cont (store s') = cont (store s) \<or> cont (store s') = (cont (store s))(p \<mapsto> d)"
  shows "blob_image E cont s' = blob_image E cont s"
  using assms by (auto simp: honest_generator_def blob_image_def served_nbt_def)

text \<open>What a step of a task does, whatever is in the cache: the image and, but for the save of a
  generated chunk, the contents stay, and nothing but a blob of the image is put into the cache.\<close>

definition puts_image ::
    "('s, 'c) vf_env \<Rightarrow> ('s \<Rightarrow> chunk_pos \<rightharpoonup> bytes) \<Rightarrow> ('s, 'c) vf_state \<Rightarrow> ('s, 'c) vf_state \<Rightarrow> bool" where
  "puts_image E cont s s' \<longleftrightarrow> cache s' = cache s \<or>
     (\<exists>p b. cache s' = lru_put (cache_ops E) p b (cache s) \<and> blob_image E cont s p = Some b)"

text \<open>A task that saves a generated chunk where nothing or the same is stored does not change the image.\<close>

lemma save_db_effect:
  assumes env: "env_ok E entries cont eff sinv" and sto: "sinv (store s)" and hon: "honest_generator E eff"
    and ok: "task_ok E cont s (Save_db p d)" and step: "task_step E joined (Save_db p d) s = Some (t', s')"
    and st: "storage E = Some ops"
  shows "blob_image E cont s' = blob_image E cont s \<and> sinv (store s') \<and> cache s' = cache s \<and> task_ok E cont s' t' \<and>
    (cont (store s') = cont (store s) \<or> cont (store s') = (cont (store s))(p \<mapsto> d))"
proof -
  note cs = env_okD(5) [OF env st]
  obtain r st' where save: "save_chunk ops (fst p) (snd p) d (store s) = (r, st')" by fastforce
  have t': "t' = Fill_cache p d" and s': "s' = s\<lparr>store := st'\<rparr>" using st step save by simp_all
  have none: "cont (store s) p \<in> {None, Some d}" and gen: "generated_nbt E p = Some d"
    using ok by (simp_all add: task_ok_def)
  have "eff d = Some (Some d)" using hon gen unfolding honest_generator_def by blast
  then have cont: "cont st' = cont (store s) \<or> cont st' = (cont (store s))(p \<mapsto> d)"
    using chunk_storage.save_ok [OF cs sto, of "fst p" "snd p" d _ st']
      chunk_storage.save_err [OF cs sto, of "fst p" "snd p" d _ st'] save
    by (cases r) (auto simp: apply_effect_def)
  have img: "blob_image E cont s' = blob_image E cont s"
    by (rule cont_generated [where cont = cont and s = s, OF hon none gen]) (simp add: s' cont)
  have "sinv st'" using chunk_storage.invar_save [OF cs sto, of "fst p" "snd p" d] save by simp
  moreover have "cont st' p = None \<or> cont st' p = Some d" using cont none by auto
  ultimately show ?thesis using img gen cont by (simp add: t' s' task_ok_def)
qed

lemma fill_cache_effect:
  assumes hon: "honest_generator E eff" and ok: "task_ok E cont s (Fill_cache p d)"
    and step: "task_step E joined (Fill_cache p d) s = Some (t', s')"
  shows "t' = Finished \<and> store s' = store s \<and> puts_image E cont s s'"
proof -
  have gen: "generated_nbt E p = Some d" and here: "cont (store s) p \<in> {None, Some d}"
    using ok by (simp_all add: task_ok_def)
  have good: "good_nbt E p d" using hon gen unfolding honest_generator_def by blast
  show ?thesis
  proof (cases "compress_and_wrap_chunk (compressor E) d")
    case None
    with step show ?thesis by (auto simp: puts_image_def)
  next
    case (Some b)
    have "blob_image E cont s p = Some b"
      using here gen good Some by (auto simp: blob_image_def served_nbt_def blob_of_def)
    moreover have "t' = Finished" "store s' = store s" "cache s' = lru_put (cache_ops E) p b (cache s)"
      using step Some by auto
    ultimately show ?thesis unfolding puts_image_def by blast
  qed
qed

lemma task_step_effect:
  assumes env: "env_ok E entries cont eff sinv" and sto: "sinv (store s)" and hon: "honest_generator E eff"
    and ok: "task_ok E cont s t" and step: "task_step E joined t s = Some (t', s')"
  shows "blob_image E cont s' = blob_image E cont s \<and> sinv (store s') \<and> puts_image E cont s s' \<and> task_ok E cont s' t' \<and>
    (cont (store s') = cont (store s) \<or> (\<exists>p d. t = Save_db p d \<and> cont (store s') = (cont (store s))(p \<mapsto> d)))"
proof -
  have frame: "blob_image E cont s' = blob_image E cont s \<and> puts_image E cont s s' \<and> cont (store s') = cont (store s)"
    if "cont (store s') = cont (store s)" "cache s' = cache s"
    using blob_image_cong [of cont s' s E] that by (simp add: puts_image_def)
  show ?thesis
  proof (cases t)
    case (Check_db p)
    show ?thesis
    proof (cases "storage E")
      case None
      with Check_db step show ?thesis
        using frame sto env_okD(4) [OF env None] by (auto simp: task_ok_def)
    next
      case (Some ops)
      obtain r d where load: "load_chunk ops (fst p) (snd p) (store s) = (r, d)" by fastforce
      with storage_load [OF env Some sto load] Check_db Some step show ?thesis
        using frame by (auto simp: task_ok_def split: sum.splits option.splits)
    qed
  next
    case (Generate p)
    obtain r s1 where g: "generate_timed E (fst p) (snd p) s = (r, s1)" by fastforce
    have s1: "r = fst (generate_chunk E (fst p) (snd p) 0)" "store s1 = store s" "cache s1 = cache s"
      using generate_timed_result [OF env g] by simp_all
    have "store s' = store s1 \<and> cache s' = cache s1 \<and>
        (t' = Finished \<or> (\<exists>d. r = Inr d \<and> t' = Save_db p d))"
      using Generate step g by (auto split: sum.splits bool.splits)
    then show ?thesis
      using frame s1 sto ok Generate by (auto simp: task_ok_def generated_nbt_def)
  next
    case (Save_db p d)
    show ?thesis
    proof (cases "storage E")
      case None
      with Save_db step ok show ?thesis using frame sto by (auto simp: task_ok_def)
    next
      case (Some ops)
      with save_db_effect [OF env sto hon, of p d joined t' s'] ok step Save_db show ?thesis
        by (auto simp: puts_image_def)
    qed
  next
    case (Fill_cache p d)
    with fill_cache_effect [OF hon, of cont s p d joined t' s'] ok step sto blob_image_cong [of cont s' s E]
    show ?thesis by (simp add: task_ok_def)
  qed (use step frame sto in \<open>auto simp: task_ok_def split: if_splits\<close>)
qed

lemma task_step_served:
  assumes inv: "served E entries cont eff sinv s" and hon: "honest_generator E eff"
    and ok: "task_ok E cont s t" and step: "task_step E joined t s = Some (t', s')"
  shows "blob_image E cont s' = blob_image E cont s \<and> served E entries cont eff sinv s' \<and> task_ok E cont s' t'"
proof -
  note eff = task_step_effect [OF servedD(1,2) [OF inv] hon ok step]
  have "entries (cache s') \<subseteq>\<^sub>m blob_image E cont s"
    using eff servedD(3) [OF inv] put_image [OF env_okD(1) [OF servedD(1) [OF inv]], where img = "blob_image E cont s"]
    unfolding puts_image_def by metis
  then have "served E entries cont eff sinv s'"
    using inv eff unfolding served_def by simp
  with eff show ?thesis by blast
qed

lemma run_task_served:
  assumes "served E entries cont eff sinv s" and "honest_generator E eff" and "task_ok E cont s t"
    and "run_task n E t s = (t', s')"
  shows "blob_image E cont s' = blob_image E cont s \<and> served E entries cont eff sinv s'"
  using assms
proof (induction n arbitrary: t s)
  case (Suc n)
  show ?case
  proof (cases "task_step E True t s")
    case None
    with Suc.prems show ?thesis by simp
  next
    case (Some ts)
    obtain t1 s1 where ts: "ts = (t1, s1)" by (cases ts)
    note one = task_step_served [OF Suc.prems(1,2,3) Some [unfolded ts]]
    have "run_task n E t1 s1 = (t', s')" using Suc.prems(4) Some ts by simp
    then show ?thesis
      using one Suc.IH [of s1 t1] Suc.prems(2) by simp
  qed
qed simp

subsection \<open>Sequences of requests\<close>

text \<open>What the file system is asked to do: reads and writes of region files, and the prefetch tasks
  that reads have spawned, each run to its end.\<close>

datatype request = Read u64 nat i32 i32 | Write u64 bytes i32 i32 | Prefetch chunk_pos

fun serve :: "('s, 'c) vf_env \<Rightarrow> request \<Rightarrow> ('s, 'c) vf_state \<Rightarrow> bytes list \<times> ('s, 'c) vf_state" where
  "serve E (Read off n X Z) s = (case read_at E off n X Z s of (r, s') \<Rightarrow> ([r], s'))"
| "serve E (Write off data X Z) s = ([], write_at E off data X Z s)"
| "serve E (Prefetch p) s = ([], prefetch E p s)"

fun run_requests ::
    "('s, 'c) vf_env \<Rightarrow> request list \<Rightarrow> ('s, 'c) vf_state \<Rightarrow> bytes list \<times> ('s, 'c) vf_state" where
  "run_requests E [] s = ([], s)"
| "run_requests E (r # rs) s =
     (case serve E r s of (out, s1) \<Rightarrow> (case run_requests E rs s1 of (outs, s2) \<Rightarrow> (out @ outs, s2)))"

text \<open>The specification: an image of the chunks. A read answers with a slice of it, a write of a
  chunk replaces that chunk's blob, nothing else changes it.\<close>

definition image_step :: "('s, 'c) vf_env \<Rightarrow> request \<Rightarrow> image \<Rightarrow> bytes list \<times> image" where
  "image_step E r img =
     (case r of
        Read off n X Z \<Rightarrow> ([file_slice img X Z off n], img)
      | Write off data X Z \<Rightarrow>
          ([], case carried E off data of None \<Rightarrow> img | Some (p, raw, b) \<Rightarrow> img(p \<mapsto> b))
      | Prefetch p \<Rightarrow> ([], img))"

fun image_run :: "('s, 'c) vf_env \<Rightarrow> request list \<Rightarrow> image \<Rightarrow> bytes list \<times> image" where
  "image_run E [] img = ([], img)"
| "image_run E (r # rs) img =
     (case image_step E r img of (out, img1) \<Rightarrow>
        (case image_run E rs img1 of (outs, img2) \<Rightarrow> (out @ outs, img2)))"

text \<open>The requests of the claim: reads of a \<open>u32\<close> size; writes that are ignored (outside the slots,
  or not decodable) or carry a chunk that fits its slot.\<close>

definition proper :: "('s, 'c) vf_env \<Rightarrow> request \<Rightarrow> bool" where
  "proper E r =
     (case r of
        Read off n X Z \<Rightarrow> n < 2 ^ 32
      | Write off data X Z \<Rightarrow>
          (case carried E off data of
             Some (p, raw, b) \<Rightarrow> length b \<le> slot_bytes
           | None \<Rightarrow> get_chunk_coords_from_offset off = None \<or>
               (\<exists>e. unwrap_and_decompress_chunk (compressor E) data = Inl e))
      | Prefetch p \<Rightarrow> True)"

text \<open>A storage that keeps chunks as they are and whose saves succeed.\<close>

definition saves_verbatim ::
    "('s, 'c) vf_env \<Rightarrow> (bytes \<Rightarrow> bytes option option) \<Rightarrow> ('s \<Rightarrow> bool) \<Rightarrow> bool" where
  "saves_verbatim E eff sinv \<longleftrightarrow>
     (\<forall>d. eff d = Some (Some d)) \<and>
     (case storage E of
        None \<Rightarrow> False
      | Some ops \<Rightarrow> \<forall>s x z d. sinv s \<longrightarrow> fst (save_chunk ops x z d s) = Inr ())"

lemma serve_image:
  assumes inv: "served E entries cont eff sinv s" and hon: "honest_generator E eff"
    and verb: "saves_verbatim E eff sinv" and ok: "proper E r"
    and run: "serve E r s = (out, s')"
  shows "image_step E r (blob_image E cont s) = (out, blob_image E cont s') \<and> served E entries cont eff sinv s'"
proof (cases r)
  case (Read off n X Z)
  then have n: "n < 2 ^ 32" using ok by (simp add: proper_def)
  obtain d s1 where d: "read_at E off n X Z s = (d, s1)" by fastforce
  show ?thesis
    using read_at_served [OF inv n d] run Read d by (simp add: image_step_def)
next
  case (Write off data X Z)
  obtain ops where st: "storage E = Some ops"
    and saves: "\<And>s x z d. sinv s \<Longrightarrow> fst (save_chunk ops x z d s) = Inr ()"
    using verb by (auto simp: saves_verbatim_def split: option.splits)
  show ?thesis
  proof (cases "carried E off data")
    case None
    then have "write_at E off data X Z s = s"
      using ok Write by (intro write_at_ignored) (auto simp: proper_def)
    with None Write run inv show ?thesis by (simp add: image_step_def)
  next
    case (Some c)
    obtain p raw b where c: "c = (p, raw, b)" by (cases c)
    have fits: "length b \<le> slot_bytes" using ok Write Some c by (simp add: proper_def)
    obtain d where save: "save_chunk ops (fst p) (snd p) raw (store s) = (Inr (), d)"
      using saves [OF servedD(2) [OF inv], of "fst p" "snd p" raw] by (metis prod.collapse)
    have "eff raw = Some (Some raw)" using verb unfolding saves_verbatim_def by blast
    from write_at_served [OF inv Some [unfolded c] fits st this save, of X Z]
    show ?thesis using Some Write run c by (simp add: image_step_def)
  qed
next
  case (Prefetch p)
  obtain t' where t: "run_task 7 E (Check_cache p) s = (t', prefetch E p s)"
    unfolding prefetch_def by (metis prod.collapse)
  have "task_ok E cont s (Check_cache p)" by (simp add: task_ok_def)
  from run_task_served [OF inv hon this t]
  show ?thesis using Prefetch run by (simp add: image_step_def)
qed

lemma run_requests_image:
  assumes "served E entries cont eff sinv s" and "honest_generator E eff"
    and "saves_verbatim E eff sinv" and "list_all (proper E) rs"
    and "run_requests E rs s = (outs, s')"
  shows "image_run E rs (blob_image E cont s) = (outs, blob_image E cont s') \<and> served E entries cont eff sinv s'"
  using assms
proof (induction rs arbitrary: s outs)
  case (Cons r rs)
  obtain out s1 where r: "serve E r s = (out, s1)" by fastforce
  obtain outs1 s2 where rs: "run_requests E rs s1 = (outs1, s2)" by fastforce
  have outs: "outs = out @ outs1" "s2 = s'" using Cons.prems(5) r rs by simp_all
  have "proper E r" "list_all (proper E) rs" using Cons.prems(4) by simp_all
  from serve_image [OF Cons.prems(1-3) this(1) r] Cons.IH [OF _ Cons.prems(2,3) this(2) rs [unfolded outs]]
  show ?case by (simp add: outs)
qed simp

end
