(* ===== verification/Serving.thy ===== *)
theory Serving
  imports Coherence
begin

text \<open>
  The properties of the virtual file: the length of every answer, reads and writes against the
  image, what prefetching covers, and where the code departs from the image (blobs longer than a
  slot, failing loads, chunks that do not declare their coordinates). The first part sets up
  surroundings for the witnesses: an LRU list, a generator of three-byte chunks and the database
  in memory.
\<close>

subsection \<open>\<open>PostgresStorage\<close> in raw mode as the storage\<close>

text \<open>The states of a storage on one pool, and a database none of whose calls fails.\<close>

definition on_pool ::
    "('db, 'n) pg_client \<Rightarrow> ('n json \<Rightarrow> 'n json) \<Rightarrow> ('db, 'n) view \<Rightarrow> ('db, 'n) postgres_storage \<Rightarrow> bool" where
  "on_pool c jb view s \<longleftrightarrow> lawful PgRaw jb view s \<and> pool s = c"

definition pg_reliable :: "('db, 'n) pg_client \<Rightarrow> bool" where
  "pg_reliable c \<longleftrightarrow> (\<forall>d. fst (pool_get c d)) \<and>
     (\<forall>x z b d. fst (pg_execute c (Upsert Chunks_raw) x z (Bytea b) d)) \<and>
     (\<forall>x z d. fst (pg_query c (Select_data Chunks_raw) x z d) \<noteq> None)"

abbreviation verbatim :: "bytes \<Rightarrow> bytes option option" where
  "verbatim d \<equiv> Some (Some d)"

lemma raw_chunk_storage: "chunk_storage (postgres_ops L N) (raw_contents view) verbatim (lawful PgRaw jb view)"
  by (rule raw.chunk_storage_axioms)

lemma on_pool_storage:
  "chunk_storage (postgres_ops L N) (raw_contents view) verbatim (on_pool c jb view)"
proof (unfold_locales, goal_cases)
  case (1 s x z d u s')
  then show ?case using raw.save_ok [of jb view s L N x z d u s'] by (simp add: on_pool_def)
next
  case (2 s x z d e s')
  then show ?case using raw.save_err [of jb view s L N x z d e s'] by (simp add: on_pool_def)
next
  case (3 s x z r s')
  then show ?case using raw.load_ok [of jb view s L N x z r s'] by (simp add: on_pool_def)
next
  case (4 s x z)
  then show ?case using raw.load_frame [of jb view s L N x z] by (simp add: on_pool_def)
next
  case (5 s x z d)
  then show ?case
    using raw.invar_save [of jb view s L N x z d] by (simp add: on_pool_def postgres_ops_def methods_keep_pool)
next
  case (6 s x z)
  then show ?case
    using raw.invar_load [of jb view s L N x z] by (simp add: on_pool_def postgres_ops_def methods_keep_pool)
qed

lemma reliable_save:
  assumes "pg_reliable c" and "on_pool c jb view s"
  shows "fst (save_chunk (postgres_ops L N) x z d s) = Inr ()"
  using assms
  by (simp add: pg_reliable_def on_pool_def lawful_def postgres_ops_def pg_save_chunk_def with_client_def
      call_def case_prod_beta done_or_def)

lemma reliable_load:
  assumes rel: "pg_reliable c" and on: "on_pool c jb view s"
  shows "fst (load_chunk (postgres_ops L N) x z s) \<noteq> Inl e"
proof -
  have ok: "pg_ok c jb view" and m: "mode s = PgRaw" "pool s = c"
    using on by (auto simp: on_pool_def lawful_def)
  let ?d = "snd (pool_get c (db s))"
  obtain rows where q: "fst (pg_query c (Select_data Chunks_raw) x z ?d) = Some rows"
    using rel unfolding pg_reliable_def by fastforce
  have rows: "rows = (case view ?d Chunks_raw (x, z) of None \<Rightarrow> [] | Some v \<Rightarrow> [v])"
    by (rule pg_okD(7) [OF ok q])
  have "\<exists>r. fst (load_chunk (postgres_ops L N) x z s) = Inr r"
  proof (cases "view ?d Chunks_raw (x, z)")
    case None
    then show ?thesis
      using rel q rows m by (simp add: pg_reliable_def postgres_ops_def pg_load_chunk_def pg_eval)
  next
    case (Some v)
    then obtain b where "v = Bytea b"
      using pg_okD(2) [OF ok, of ?d] unfolding typed_rows_def by blast
    with Some show ?thesis
      using rel q rows m by (simp add: pg_reliable_def postgres_ops_def pg_load_chunk_def pg_eval)
  qed
  then show ?thesis by auto
qed

subsection \<open>Surroundings for the witnesses\<close>

type_synonym lru_list = "(chunk_pos \<times> bytes) list \<times> nat"

definition without :: "chunk_pos \<Rightarrow> (chunk_pos \<times> bytes) list \<Rightarrow> (chunk_pos \<times> bytes) list" where
  "without k xs = filter (\<lambda>e. fst e \<noteq> k) xs"

definition list_lru :: "lru_list lru" where
  "list_lru =
     \<lparr>lru_new = \<lambda>n. ([], n),
      lru_get = (\<lambda>k (xs, n). case map_of xs k of None \<Rightarrow> (None, (xs, n)) | Some b \<Rightarrow> (Some b, ((k, b) # without k xs, n))),
      lru_put = (\<lambda>k b (xs, n). (take (max 1 n) ((k, b) # without k xs), n)),
      lru_contains = (\<lambda>k (xs, n). map_of xs k \<noteq> None)\<rparr>"

abbreviation list_entries :: "lru_list \<Rightarrow> chunk_pos \<rightharpoonup> bytes" where
  "list_entries c \<equiv> map_of (fst c)"

lemma map_of_without: "map_of (without k xs) = (map_of xs)(k := None)"
  by (induction xs) (auto simp: without_def fun_eq_iff)

lemma map_of_take_Some: "map_of (take n xs) k = Some v \<Longrightarrow> map_of xs k = Some v"
proof (induction xs arbitrary: n)
  case (Cons x xs)
  then show ?case by (cases n) (auto split: if_splits)
qed simp

lemma map_of_take: "map_of (take n xs) \<subseteq>\<^sub>m map_of xs"
proof (unfold map_le_def, rule ballI)
  fix k
  assume "k \<in> dom (map_of (take n xs))"
  then obtain v where "map_of (take n xs) k = Some v" by blast
  with map_of_take_Some [OF this] show "map_of (take n xs) k = map_of xs k" by simp
qed

lemma list_lru_ok: "lru_ok list_lru list_entries"
proof -
  have "list_entries (lru_put list_lru k b c) \<subseteq>\<^sub>m (list_entries c)(k \<mapsto> b)" for k b c
  proof -
    have "list_entries (lru_put list_lru k b c) \<subseteq>\<^sub>m map_of ((k, b) # without k (fst c))"
      by (simp add: list_lru_def split_beta map_of_take del: map_of.simps)
    then show ?thesis by (simp add: map_of_without)
  qed
  moreover have "list_entries (lru_put list_lru k b c) k = Some b" for k b c
    by (cases "max 1 (snd c)") (auto simp: list_lru_def split_beta)
  moreover have "list_entries (snd (lru_get list_lru k c)) = list_entries c" for k c
    by (auto simp: list_lru_def split_beta map_of_without split: option.split)
  moreover have "fst (lru_get list_lru k c) = list_entries c k" for k c
    by (auto simp: list_lru_def split_beta split: option.split)
  ultimately show ?thesis
    unfolding lru_ok_def by (simp add: list_lru_def split_beta)
qed

text \<open>Chunks \<open>[0, x, z]\<close> of the tiny format, for the coordinates that fit a byte.\<close>

definition tiny_generator :: generator where
  "tiny_generator x z t =
     (if scast (ucast x :: i8) = x \<and> scast (ucast z :: i8) = z then Inr [0, ucast x, ucast z] else Inl Generation_failed, [])"

type_synonym demo_storage = "((i64 + f64) mem_db, i64 + f64) postgres_storage"

definition demo :: "u8 \<Rightarrow> (demo_storage, lru_list) vf_env \<times> (demo_storage, lru_list) vf_state" where
  "demo radius =
     virtual_file_new tiny_generator (Some (postgres_ops tiny_nbt sum_num_lib)) list_lru stored_codec tiny_nbt
       (\<lambda>_. 0) (mem_storage PgRaw) None 10 radius"

lemma demo_env [simp]:
  "generate_chunk (fst (demo r)) = tiny_generator"
  "storage (fst (demo r)) = Some (postgres_ops tiny_nbt sum_num_lib)"
  "cache_ops (fst (demo r)) = list_lru" "compressor (fst (demo r)) = stored_codec"
  "fastnbt (fst (demo r)) = tiny_nbt" "header_cache (fst (demo r)) = generate_header"
  "prefetch_radius (fst (demo r)) = r"
  by (simp_all add: demo_def virtual_file_new_def)

lemma demo_state [simp]:
  "cache (snd (demo r)) = ([], 10)" "store (snd (demo r)) = mem_storage PgRaw"
  "ticks (snd (demo r)) = 0" "permits (snd (demo r)) = 2" "spawned (snd (demo r)) = []"
  by (simp_all add: demo_def virtual_file_new_def list_lru_def cache_capacity_def)

lemma tiny_declared: "declared_coords tiny_nbt [0, x, z] = Some (scast x, scast z)"
  by (simp add: declared_coords_def coord_pair_def tiny_nbt_def coords_nbt_def ucast_scast)

lemma mem_reliable: "pg_reliable mem_client"
proof -
  have "fst (mem_execute (Upsert Chunks_raw) x z (Bytea b) d)" for x z b and d :: "'n mem_db"
    by (cases d) simp
  then show ?thesis
    unfolding pg_reliable_def by (simp add: mem_client_def mem_query_def)
qed

lemma mem_storage_empty: "raw_contents mem_view (mem_storage PgRaw) = Map.empty"
  by (simp add: raw_contents_def mem_view_def fun_eq_iff)

lemma demo_served:
  "served (fst (demo r)) list_entries (raw_contents mem_view) verbatim (on_pool mem_client id mem_view) (snd (demo r))"
proof -
  let ?E = "fst (demo r)" and ?s = "snd (demo r)"
  have env: "env_ok ?E list_entries (raw_contents mem_view) verbatim (on_pool mem_client id mem_view)"
    unfolding env_ok_def
    by (simp add: list_lru_ok tiny_generator_def on_pool_storage
        reliable_load [OF mem_reliable, where jb = id and view = mem_view])
  have "length b = 8" if "blob_image ?E (raw_contents mem_view) ?s p = Some b" for p b
    using that
    by (auto simp: blob_image_def blob_of_def served_nbt_def mem_storage_empty generated_nbt_def tiny_generator_def
        compress_and_wrap_chunk_def stored_codec_def Let_def split: if_splits)
  then show ?thesis
    using env mem_client_ok
    by (simp add: served_def on_pool_def lawful_def)
qed

lemma demo_honest: "honest_generator (fst (demo r)) verbatim"
  by (auto simp: honest_generator_def generated_nbt_def tiny_generator_def good_nbt_def tiny_declared
      split: if_splits)

lemma demo_saves: "saves_verbatim (fst (demo r)) verbatim (on_pool mem_client id mem_view)"
  by (simp add: saves_verbatim_def reliable_save [OF mem_reliable, where jb = id and view = mem_view])

subsection \<open>Lemmas about answers\<close>

lemma read_loop_length: "length resp \<le> n \<Longrightarrow> length (fst (read_loop fetch X Z off n resp s)) \<le> n"
proof (induction "n - length resp" arbitrary: resp s rule: less_induct)
  case less
  note loop = read_loop.simps [of fetch X Z off n resp s]
  show ?case
  proof (cases "length resp < n")
    case True
    have "length (fst (read_loop fetch X Z off n (resp @ piece) s')) \<le> n"
      if "get_chunk_coords_from_offset (off + of_nat (length resp)) = Some (x, z)"
        and "slot_piece x z (off + of_nat (length resp)) (n - length resp) b = Some piece" for x z b piece s'
    proof (rule less.hyps)
      show "n - length (resp @ piece) < n - length resp"
        using slot_piece_progress [OF that(1) True that(2)] by simp
      show "length (resp @ piece) \<le> n"
        using slot_piece_bounds [OF that(1) _ that(2)] True by (simp add: le_diff_conv2 add.commute)
    qed
    with less.prems show ?thesis
      by (simp add: loop Let_def split: option.split prod.split)
  qed (simp add: loop less.prems)
qed

lemma read_loop_frame:
  assumes "\<And>x z s. f (snd (fetch x z s)) = f s"
  shows "f (snd (read_loop fetch X Z off n resp s)) = f s"
proof (induction "n - length resp" arbitrary: resp s rule: less_induct)
  case less
  note loop = read_loop.simps [of fetch X Z off n resp s]
  have frame: "f s' = f s" if "fetch x z s = (b, s')" for x z b s'
    using assms [of x z s] that by simp
  have rec: "f (snd (read_loop fetch X Z off n (resp @ piece) s')) = f s"
    if "length resp < n" and "get_chunk_coords_from_offset (off + of_nat (length resp)) = Some (x, z)"
      and "fetch (X * 32 + x) (Z * 32 + z) s = (Some b, s')"
      and "slot_piece x z (off + of_nat (length resp)) (n - length resp) b = Some piece" for x z b piece s'
    using less [of "resp @ piece" s'] slot_piece_progress [OF that(2,1,4)] frame [OF that(3)] by simp
  show ?case
    using frame rec by (auto simp: loop Let_def split: option.split prod.split)
qed

lemma read_header_length: "length (read_header E off n) \<le> n"
  by (auto simp: read_header_def Let_def)

text \<open>A slot of an image, read from any position in it.\<close>

lemma file_slice_slot:
  assumes rel: "rel_pos (x, z)" and img: "img (X * 32 + x, Z * 32 + z) = Some b" and n: "d + n \<le> slot_bytes"
  shows "file_slice img X Z (get_chunk_file_offset x z + of_nat d) n = map (slot_byte b) [d..<d + n]"
proof -
  let ?start = "get_chunk_file_offset x z"
  have "file_byte img X Z (?start + of_nat d + of_nat i) = Some (slot_byte b (d + i))" if "i < n" for i
  proof -
    have pos: "unat (?start + of_nat (d + i)) = unat ?start + (d + i)"
      using that n slot_in_file [of x z] by (intro unat_add_in_file) simp
    then have "get_chunk_coords_from_offset (?start + of_nat (d + i)) = Some (x, z)"
      using that n by (simp add: coords_Some_iff [OF rel] del: of_nat_add)
    then show ?thesis
      using pos slot_in_file [of x z]
      by (simp add: file_byte_def data_byte_def img add.assoc flip: of_nat_add)
  qed
  from available_all [of n _ "\<lambda>i. slot_byte b (d + i)", OF this]
  have "available n (\<lambda>i. file_byte img X Z (?start + of_nat d + of_nat i)) = map (\<lambda>i. slot_byte b (d + i)) [0..<n]"
    by simp
  moreover have "map (\<lambda>i. slot_byte b (d + i)) [0..<n] = map (slot_byte b) [d..<d + n]"
    by (intro nth_equalityI) simp_all
  ultimately show ?thesis by (simp add: file_slice_def Let_def)
qed

lemma slot_bytes_blob: "length b \<le> m \<Longrightarrow> take (length b) (map (slot_byte b) [0..<m]) = b"
  by (intro nth_equalityI) (simp_all add: slot_byte_def)

text \<open>A read that stays within one blob: one that is fetched, or one that is cached.\<close>

lemma read_fetched:
  assumes rel: "rel_pos (x, z)" and fetch: "fetch_chunk E (X * 32 + x) (Z * 32 + z) s = (Some b, s1)"
    and n: "n \<le> length b"
  shows "fst (read_at E (get_chunk_file_offset x z) n X Z s) = take n b"
proof -
  let ?start = "get_chunk_file_offset x z"
  have out: "\<not> ?start < HEADER_BYTES"
    using slot_in_file [of x z] by (simp add: word_less_nat_alt HEADER_BYTES_def)
  have at: "get_chunk_coords_from_offset ?start = Some (x, z)"
    by (simp add: coords_Some_iff [OF rel])
  have "fst (read_loop (fetch_chunk E) X Z ?start n [] s) = take n b"
  proof (cases "n = 0")
    case False
    have piece: "slot_piece x z ?start n b = Some (take n b)"
      using n False by (auto simp: slot_piece_def Let_def min_def)
    show ?thesis
      using False n
      by (simp add: read_loop.simps [of _ _ _ _ _ "[]"] at fetch piece)
         (simp add: read_loop.simps [of _ _ _ _ _ "take n b"] min_def)
  qed (simp add: read_loop.simps)
  then show ?thesis
    using out n by (auto simp: read_at_def read_header_def Let_def split: prod.split)
qed

lemma read_cached:
  assumes lru: "lru_ok (cache_ops E) entries" and rel: "rel_pos (x, z)"
    and hit: "entries (cache s) (X * 32 + x, Z * 32 + z) = Some b"
    and n: "n \<le> length b"
  shows "fst (read_at E (get_chunk_file_offset x z) n X Z s) = take n b"
proof -
  let ?k = "(X * 32 + x, Z * 32 + z)"
  have "fst (lru_get (cache_ops E) ?k (cache s)) = Some b"
    by (simp add: lru_okD(2) [OF lru] hit)
  then obtain c where "lru_get (cache_ops E) ?k (cache s) = (Some b, c)" by (metis prod.collapse)
  then obtain s1 where "fetch_chunk E (X * 32 + x) (Z * 32 + z) s = (Some b, s1)"
    by (simp add: fetch_chunk_def)
  from read_fetched [OF rel this n] show ?thesis .
qed

text \<open>A chunk that is not cached comes out of the storage, if it is there and consistent.\<close>

lemma fetch_loaded:
  assumes lru: "lru_ok (cache_ops E) entries" and miss: "entries (cache s) (x, z) = None"
    and st: "storage E = Some ops" and load: "load_chunk ops x z (store s) = (Inr (Some raw), d)"
    and decl: "declared_coords (fastnbt E) raw = Some (x, z)"
    and blob: "compress_and_wrap_chunk (compressor E) raw = Some b"
  obtains s1 where "fetch_chunk E x z s = (Some b, s1)"
proof -
  have "fst (lru_get (cache_ops E) (x, z) (cache s)) = None" by (simp add: lru_okD(2) [OF lru] miss)
  then obtain c where get: "lru_get (cache_ops E) (x, z) (cache s) = (None, c)" by (metis prod.collapse)
  have ok: "verify_chunk_coords (fastnbt E) raw x z = Inr ()"
    by (simp add: verify_chunk_coords_declared decl)
  obtain s2 where "load_or_generate E x z (note_metrics record_cache_miss (s\<lparr>cache := c\<rparr>)) = (Inr raw, s2)"
    by (simp add: load_or_generate_def st load ok Let_def)
  with that show ?thesis by (simp add: fetch_chunk_def get ok blob Let_def)
qed

text \<open>In the demo a blob of the chunk (1, 0), written to the slot of (0, 0).\<close>

lemma coords_8192: "get_chunk_coords_from_offset 8192 = Some (0, 0)"
  by (simp add: get_chunk_coords_from_offset_def region_consts)

lemma demo_carried:
  "carried (fst (demo r)) 8192 [0, 0, 0, 4, 2, 0, 1, 0] = Some ((1, 0), [0, 1, 0], [0, 0, 0, 4, 2, 0, 1, 0])"
  by (simp add: carried_def coords_8192 unwrap_and_decompress_chunk_def compression_consts decoded_def
      stored_codec_def tiny_declared compress_and_wrap_chunk_def to_be_bytes_def)

text \<open>The targets of a prefetch as a product of two ranges.\<close>

lemma prefetch_targets_product:
  "prefetch_targets r cx cz = map (\<lambda>(dx, dz). (cx + dx, cz + dz))
     (filter (\<lambda>p. p \<noteq> (0, 0)) (List.product (radius_range r) (radius_range r)))"
proof -
  have "concat (map (\<lambda>dx. map (\<lambda>dz. (cx + dx, cz + dz)) (filter (\<lambda>dz. \<not> (dx = 0 \<and> dz = 0)) zs)) xs) =
      map (\<lambda>(dx, dz). (cx + dx, cz + dz)) (filter (\<lambda>p. p \<noteq> (0, 0)) (List.product xs zs))" for xs zs
    by (induction xs) (simp_all add: filter_map o_def)
  then show ?thesis by (simp add: prefetch_targets_def)
qed

lemma sint_small: "\<bar>k\<bar> \<le> 255 \<Longrightarrow> sint (word_of_int k :: i32) = k"
  by (simp add: sint_sbintrunc' signed_take_bit_int_eq_self)

lemma radius_range_facts:
  "distinct (radius_range r)" "length (radius_range r) = 2 * unat r + 1"
  "set (radius_range r) = {d. \<bar>sint d\<bar> \<le> int (unat r)}"
proof -
  have r: "unat r < 256" using unsigned_less [of r, where ?'a = nat] by simp
  let ?f = "\<lambda>d. word_of_int (int d - int (unat r)) :: i32"
  have sint: "sint (?f d) = int d - int (unat r)" if "d < 2 * unat r + 1" for d
  proof (rule sint_small)
    show "\<bar>int d - int (unat r)\<bar> \<le> 255" using that r by linarith
  qed
  have "inj_on ?f (set [0..<2 * unat r + 1])"
  proof (rule inj_onI)
    fix d e
    assume d: "d \<in> set [0..<2 * unat r + 1]" and e: "e \<in> set [0..<2 * unat r + 1]" and "?f d = ?f e"
    then have "sint (?f d) = sint (?f e)" by simp
    moreover have "d < 2 * unat r + 1" "e < 2 * unat r + 1"
      using d e by (simp_all only: set_upt atLeastLessThan_iff)
    ultimately show "d = e" using sint by simp
  qed
  then show "distinct (radius_range r)" by (simp add: radius_range_def distinct_map del: upt_Suc)
  show "length (radius_range r) = 2 * unat r + 1" by (simp add: radius_range_def)
  show "set (radius_range r) = {d. \<bar>sint d\<bar> \<le> int (unat r)}"
  proof (intro equalityI subsetI CollectI)
    fix d
    assume "d \<in> set (radius_range r)"
    then obtain i where i: "i < 2 * unat r + 1" and d: "d = ?f i"
      by (auto simp: radius_range_def simp del: upt_Suc of_nat_unat)
    have "sint d = int i - int (unat r)" unfolding d by (rule sint [OF i])
    with i show "\<bar>sint d\<bar> \<le> int (unat r)" by linarith
  next
    fix d :: i32
    assume "d \<in> {d. \<bar>sint d\<bar> \<le> int (unat r)}"
    then have d: "\<bar>sint d\<bar> \<le> int (unat r)" by (rule CollectD)
    let ?i = "nat (sint d + int (unat r))"
    have i: "?i < 2 * unat r + 1" using d by linarith
    have "int ?i - int (unat r) = sint d" using d by linarith
    then have f: "?f ?i = d" by (simp only: of_int_sint scast_id)
    have "?i \<in> {0..<2 * unat r + 1}" using i by (simp only: atLeastLessThan_iff le0 simp_thms)
    then show "d \<in> set (radius_range r)"
      unfolding radius_range_def set_map set_upt by (rule image_eqI [where f = ?f, OF f [symmetric]])
  qed
qed

text \<open>The slot after the slot of \<open>(x, z)\<close> is that of \<open>(x + 1, z)\<close>.\<close>

lemma next_slot:
  assumes "unat x < 31"
  shows "get_chunk_file_offset x z + 262144 = get_chunk_file_offset (x + 1) z"
proof -
  have "unat (x + 1) = unat x + 1" using assms by (simp add: unat_word_ariths)
  then have "unat (get_chunk_file_offset (x + 1) z) = unat (get_chunk_file_offset x z) + slot_bytes"
    using assms by (simp add: layout slot_index_def)
  also have "\<dots> = unat (get_chunk_file_offset x z + of_nat slot_bytes)"
    using slot_in_file [of x z] by (intro unat_add_in_file [symmetric]) simp
  finally show ?thesis by (simp add: word_unat_eq_iff)
qed

text \<open>A client whose selects fail, over the database in memory.\<close>

definition deaf_client :: "('n mem_db, 'n) pg_client" where
  "deaf_client = mem_client\<lparr>pg_query := \<lambda>_ _ _ d. (None, d)\<rparr>"

lemma deaf_client_ok: "pg_ok deaf_client id mem_view"
  unfolding pg_ok_def deaf_client_def mem_client_def
  by (simp add: mem_execute_upsert mem_typed)

subsection \<open>Properties\<close>

text \<open>C6: a read always answers, and with exactly the number of bytes asked for: the loop ends for
  every offset and size, whatever the cache, storage, generator and compressor do, and what could
  not be had is filled up with zeros.\<close>

theorem read_length: "length (fst (read_at E off n X Z s)) = n"
proof -
  from read_loop_length [OF read_header_length [of E off n], of "fetch_chunk E" X Z off s] show ?thesis
    by (auto simp: read_at_def Let_def split: prod.split)
qed

text \<open>C3: the virtual file is a file, as long as it is asked properly: over any storage that keeps its contract, keeps
  chunks as they are and whose calls succeed, any lawful cache, a generator that answers the same for
  the same chunk and declares its coordinates, and blobs that fit their slots, every sequence of reads,
  prefetch tasks and proper writes answers each read with the slice of one image, header, blobs and
  zeros, in which the writes so far have replaced the chunks they carry. A proper write is one that is
  ignored, outside the slots or not decodable, or one whose data declare coordinates and compress to a blob
  that fits the slot. Under these conditions what is cached, evicted or prefetched cannot be seen;
  with a write that decodes but declares no coordinates it can (\<open>Eviction\<close>).\<close>

theorem requests_follow_image:
  assumes "served E entries cont eff sinv s" and "honest_generator E eff"
    and "saves_verbatim E eff sinv" and "list_all (proper E) rs"
  shows "fst (run_requests E rs s) = fst (image_run E rs (blob_image E cont s)) \<and>
    served E entries cont eff sinv (snd (run_requests E rs s))"
  using run_requests_image [OF assms, of "fst (run_requests E rs s)" "snd (run_requests E rs s)"] by simp

theorem requests_follow_image_witness:
  "let rs = [Read 8190 20 0 0, Write 8192 [0, 0, 0, 4, 2, 0, 1, 0] 0 0, Prefetch (0, 1), Read 8192 600000 0 0]
   in fst (run_requests (fst (demo 1)) rs (snd (demo 1))) =
      fst (image_run (fst (demo 1)) rs (blob_image (fst (demo 1)) (raw_contents mem_view) (snd (demo 1))))"
  using requests_follow_image [OF demo_served [of 1] demo_honest demo_saves,
      where rs = "[Read 8190 20 0 0, Write 8192 [0, 0, 0, 4, 2, 0, 1, 0] 0 0, Prefetch (0, 1), Read 8192 600000 0 0]"]
  by (simp only: Let_def list.pred_inject proper_def request.case demo_carried option.case prod.case) simp

lemma chunk_read_back:
  fixes X' Z' :: i32
  assumes inv: "served E entries cont eff sinv s" and zlib: "zlib_inverse (compressor E)"
    and car: "carried E off data = Some ((X * 32 + x, Z * 32 + z), raw, b)" and fits: "length b \<le> 262144"
    and st: "storage E = Some ops" and eff: "eff raw = Some (Some raw)"
    and save: "save_chunk ops (X * 32 + x) (Z * 32 + z) raw (store s) = (Inr (), d)"
    and rel: "unat x < 32" "unat z < 32"
  shows "let r = fst (read_at E (get_chunk_file_offset x z) 262144 X Z (write_at E off data X' Z' s))
    in unwrap_and_decompress_chunk (compressor E) (take (length b) r) =
         unwrap_and_decompress_chunk (compressor E) data \<and>
       drop (length b) r = replicate (262144 - length b) 0"
proof -
  let ?s = "write_at E off data X' Z' s" and ?start = "get_chunk_file_offset x z"
  note c = carriedD [OF car]
  have img: "blob_image E cont ?s (X * 32 + x, Z * 32 + z) = Some b" and inv': "served E entries cont eff sinv ?s"
    using write_at_served [OF inv car fits st eff, of d X' Z'] save by simp_all
  have "fst (read_at E ?start 262144 X Z ?s) = file_slice (blob_image E cont ?s) X Z ?start slot_bytes"
    using read_at_served [OF inv' _ prod.collapse [symmetric], of 262144 ?start X Z] by simp
  also have "\<dots> = map (slot_byte b) [0..<slot_bytes]"
    using file_slice_slot [of x z "blob_image E cont ?s" X Z b 0 slot_bytes] rel img
    by (simp add: rel_pos_def del: upt_conv_Cons)
  finally have r: "fst (read_at E ?start 262144 X Z ?s) = map (slot_byte b) [0..<slot_bytes]" .
  have tail: "drop (length b) (map (slot_byte b) [0..<slot_bytes]) = zeros (slot_bytes - length b)"
    by (rule nth_equalityI) (auto simp: slot_byte_def)
  have "unwrap_and_decompress_chunk (compressor E) b = Inr raw"
    by (rule unwrap_compressed [OF zlib c(5)])
  then show ?thesis
    unfolding Let_def r slot_bytes_blob [OF fits] tail c(3) by simp
qed



text \<open>A prefetch of radius \<open>r\<close> spawns exactly one task for every chunk at most \<open>r\<close> away along
  each axis, the centre left out: \<open>(2 r + 1)^2 - 1\<close> different chunks.\<close>

lemma prefetch_neighbourhood:
  "distinct (prefetch_targets r cx cz) \<and>
   length (prefetch_targets r cx cz) = (2 * unat r + 1)\<^sup>2 - 1 \<and>
   set (prefetch_targets r cx cz) =
     {(cx + dx, cz + dz) | dx dz. \<bar>sint dx\<bar> \<le> int (unat r) \<and> \<bar>sint dz\<bar> \<le> int (unat r) \<and> (dx, dz) \<noteq> (0, 0)}"
proof -
  let ?R = "radius_range r" and ?P = "\<lambda>p :: chunk_pos. p \<noteq> (0, 0)"
  let ?ps = "filter ?P (List.product ?R ?R)"
  note R = radius_range_facts [of r]
  have dist: "distinct ?ps" by (simp add: distinct_product R(1))
  have inj: "inj_on (\<lambda>(dx, dz). (cx + dx, cz + dz)) (set ?ps)" by (auto simp: inj_on_def)
  have "set ?ps = set ?R \<times> set ?R - {(0, 0)}" by auto
  moreover have "(0, 0) \<in> set ?R \<times> set ?R" by (simp add: R(3))
  ultimately have "length ?ps = card (set ?R \<times> set ?R) - 1"
    using distinct_card [OF dist] by simp
  also have "\<dots> = (2 * unat r + 1)\<^sup>2 - 1"
    using distinct_card [OF R(1)] R(2) by (simp add: card_cartesian_product power2_eq_square)
  finally have len: "length ?ps = (2 * unat r + 1)\<^sup>2 - 1" .
  show ?thesis
    unfolding prefetch_targets_product distinct_map length_map len
    using dist inj by (auto simp: R(3))
qed

text \<open>C7: where a chunk cannot be had, because the generator fails, the compressor fails or the
  chunk does not declare its coordinates, its slot reads as zeros and the read still succeeds.\<close>

theorem unavailable_reads_zero:
  assumes "served E entries cont eff sinv s" and "unat x < 32" "unat z < 32" and "n < 2 ^ 32"
    and "blob_image E cont s (X * 32 + x, Z * 32 + z) = None"
  shows "fst (read_at E (get_chunk_file_offset x z) n X Z s) = replicate n 0"
proof -
  let ?start = "get_chunk_file_offset x z" and ?img = "blob_image E cont s"
  have "get_chunk_coords_from_offset ?start = Some (x, z)"
    using assms(2,3) by (simp add: coords_Some_iff rel_pos_def)
  then have "file_byte ?img X Z ?start = None"
    using slot_in_file [of x z] assms(5) by (simp add: file_byte_def data_byte_def)
  then have "file_slice ?img X Z ?start n = zeros n" by (simp add: file_slice_def)
  then show ?thesis
    using read_at_served [OF assms(1,4) prod.collapse [symmetric], of ?start X Z] by simp
qed

text \<open>The file as in the repository's own unit test: the generator returns the bytes 1, 2, 3, 4,
  which are not NBT.\<close>

theorem unavailable_reads_zero_witness:
  "let E = (fst (demo 0))\<lparr>generate_chunk := \<lambda>x z t. (Inr [1, 2, 3, 4], [])\<rparr>
   in fst (read_at E (get_chunk_file_offset 0 0) 5 0 0 (snd (demo 0))) = [0, 0, 0, 0, 0]"
proof -
  let ?E = "(fst (demo 0))\<lparr>generate_chunk := \<lambda>x z t. (Inr [1, 2, 3, 4], [])\<rparr>"
  let ?cont = "raw_contents mem_view"
  have none: "blob_image ?E ?cont (snd (demo 0)) p = None" for p
    by (simp add: blob_image_def blob_of_def served_nbt_def mem_storage_empty generated_nbt_def good_nbt_def
        declared_coords_def tiny_nbt_def)
  have "env_ok ?E list_entries ?cont verbatim (on_pool mem_client id mem_view)"
    using servedD(1) [OF demo_served [of 0]] by (simp add: env_ok_def)
  then have inv: "served ?E list_entries ?cont verbatim (on_pool mem_client id mem_view) (snd (demo 0))"
    using servedD(2) [OF demo_served [of 0]] unfolding served_def by (simp add: none)
  have rel: "unat (0 :: i32) < 32" and n: "(5 :: nat) < 2 ^ 32" by simp_all
  show ?thesis
    using unavailable_reads_zero [OF inv rel rel n none] by (simp add: Let_def numeral_eq_Suc)
qed

text \<open>C16: a blob longer than its slot breaks the file: read in one go, the bytes past the slot's end
  are the rest of the blob; read from the next slot's start, the same positions are the next
  chunk's blob. Nothing in the code refuses or cuts such a blob.\<close>

theorem oversize_blob_bleeds:
  assumes "lru_ok (cache_ops E) entries" and "unat x < 31" "unat z < 32"
    and "entries (cache s) (X * 32 + x, Z * 32 + z) = Some b" and "262144 + k \<le> length b"
    and "entries (cache s) (X * 32 + (x + 1), Z * 32 + z) = Some b'" and "k \<le> length b'"
  shows "drop 262144 (fst (read_at E (get_chunk_file_offset x z) (262144 + k) X Z s)) = take k (drop 262144 b) \<and>
    fst (read_at E (get_chunk_file_offset x z + 262144) k X Z s) = take k b'"
proof -
  have "unat (x + 1) = unat x + 1" using assms(2) by (simp add: unat_word_ariths)
  then have rel: "rel_pos (x, z)" "rel_pos (x + 1, z)" using assms(2,3) by (simp_all add: rel_pos_def)
  show ?thesis
    using read_cached [OF assms(1) rel(1) assms(4,5)] read_cached [OF assms(1) rel(2) assms(6,7)]
    by (simp add: next_slot [OF assms(2)] drop_take)
qed

theorem oversize_blob_bleeds_witness:
  "let s = (snd (demo 0))\<lparr>cache := ([((0, 0), replicate 262145 7), ((1, 0), [9])], 10)\<rparr>
   in fst (read_at (fst (demo 0)) (get_chunk_file_offset 0 0 + 262144) 1 0 0 s) = [9] \<and>
      drop 262144 (fst (read_at (fst (demo 0)) (get_chunk_file_offset 0 0) (262144 + 1) 0 0 s)) =
        take 1 (drop 262144 (replicate 262145 7))"
proof -
  let ?big = "replicate 262145 7 :: bytes"
  let ?s = "(snd (demo 0))\<lparr>cache := ([((0, 0), ?big), ((1, 0), [9])], 10)\<rparr>"
  have lru: "lru_ok (cache_ops (fst (demo 0))) list_entries" by (simp add: list_lru_ok)
  have x: "unat (0 :: i32) < 31" and z: "unat (0 :: i32) < 32" by simp_all
  have big: "list_entries (cache ?s) (0 * 32 + 0, 0 * 32 + 0) = Some ?big"
    and nine: "list_entries (cache ?s) (0 * 32 + (0 + 1), 0 * 32 + 0) = Some [9]" by simp_all
  have len: "262144 + 1 \<le> length ?big" and one: "1 \<le> length [9 :: u8]"
    by (simp_all only: length_replicate) simp_all
  have "take 1 [9 :: u8] = [9]" by simp
  with oversize_blob_bleeds [OF lru x z big len nine one] show ?thesis
    unfolding Let_def by (simp only: simp_thms)
qed

text \<open>C15: a prefetch task takes a load that fails for a chunk that is not stored: it generates the
  chunk anew and saves it over the stored one, so one failing load of a neighbour loses whatever
  was saved there.\<close>

theorem prefetch_overwrites_saved:
  assumes cs: "chunk_storage ops cont eff sinv" and st: "storage E = Some ops"
    and lru: "lru_ok (cache_ops E) entries" and miss: "entries (cache s) p = None"
    and permit: "0 < permits s" and inv: "sinv (store s)"
    and load: "load_chunk ops (fst p) (snd p) (store s) = (Inl e, d)"
    and gen: "fst (generate_chunk E (fst p) (snd p) (ticks s)) = Inr nbt"
    and save: "save_chunk ops (fst p) (snd p) nbt d = (Inr (), d')" and eff: "eff nbt = Some (Some nbt)"
  shows "cont (store (prefetch E p s)) p = Some nbt"
proof -
  have not: "\<not> lru_contains (cache_ops E) p (cache s)" using lru_okD(6) [OF lru] miss by simp
  obtain ops' where g: "generate_chunk E (fst p) (snd p) (ticks s) = (Inr nbt, ops')"
    using gen by (metis prod.collapse)
  have "store (prefetch E p s) = d'"
    using not permit load save
    by (simp add: prefetch_def numeral_eq_Suc st generate_timed_def g split: option.split)
  moreover have "sinv d"
    using chunk_storage.invar_load [OF cs inv, of "fst p" "snd p"] load by simp
  ultimately show ?thesis
    using chunk_storage.save_ok [OF cs _ save] by (simp add: apply_effect_def eff)
qed

theorem prefetch_overwrites_saved_witness:
  "let s = (snd (demo 0))\<lparr>store := \<lparr>pool = deaf_client, mode = PgRaw, db = (Map.empty((5, 6) \<mapsto> [1, 5, 6]), Map.empty)\<rparr>\<rparr>
   in raw_contents mem_view (store s) (5, 6) = Some [1, 5, 6] \<and>
      raw_contents mem_view (store (prefetch (fst (demo 0)) (5, 6) s)) (5, 6) = Some [0, 5, 6]"
proof -
  let ?p = "(5, 6) :: chunk_pos"
  let ?db = "(Map.empty((5, 6) \<mapsto> [1, 5, 6]), Map.empty) :: (i64 + f64) mem_db"
  let ?st = "\<lparr>pool = deaf_client, mode = PgRaw, db = ?db\<rparr> :: demo_storage"
  let ?s = "(snd (demo 0))\<lparr>store := ?st\<rparr>"
  let ?ops = "postgres_ops tiny_nbt sum_num_lib :: demo_storage storage_ops"
  have st: "storage (fst (demo 0)) = Some ?ops" by simp
  have lru: "lru_ok (cache_ops (fst (demo 0))) list_entries" by (simp add: list_lru_ok)
  have inv: "lawful PgRaw id mem_view (store ?s)" by (simp add: lawful_def deaf_client_ok)
  have load: "load_chunk ?ops (fst ?p) (snd ?p) (store ?s) = (Inl Query_failed, ?st)"
    by (simp add: postgres_ops_def pg_load_chunk_def pg_eval deaf_client_def mem_client_def)
  obtain d' where save: "save_chunk ?ops (fst ?p) (snd ?p) [0, 5, 6] ?st = (Inr (), d')"
    by (simp add: postgres_ops_def pg_save_chunk_def pg_eval done_or_def deaf_client_def mem_client_def)
  have gen: "fst (generate_chunk (fst (demo 0)) (fst ?p) (snd ?p) (ticks ?s)) = Inr [0, 5, 6]"
    by (simp add: tiny_generator_def)
  have miss: "list_entries (cache ?s) ?p = None" and permit: "0 < permits ?s" by simp_all
  have "raw_contents mem_view (store (prefetch (fst (demo 0)) ?p ?s)) ?p = Some [0, 5, 6]"
    by (rule prefetch_overwrites_saved [OF raw_chunk_storage [where jb = id] st lru miss permit inv load gen save]) simp
  then show ?thesis by (simp add: raw_contents_def mem_view_def)
qed

end
