(* ===== verification/Eviction.thy ===== *)
theory Eviction
  imports Serving
begin

text \<open>
  The JSONB mode behind the cache: what a read returns depends on whether the chunk's blob is still
  cached. In raw mode the cache does not show (\<open>Coherence\<close>); in JSONB mode the storage keeps a
  chunk's canonical form only, so the same slot reads differently after a restart or an eviction. And in
  either mode a write that declares no coordinates is seen only as long as it is cached.
\<close>

subsection \<open>A demo in JSONB mode\<close>

definition jsonb_demo :: "(demo_storage, lru_list) vf_env \<times> (demo_storage, lru_list) vf_state" where
  "jsonb_demo =
     virtual_file_new tiny_generator (Some (postgres_ops tiny_nbt sum_num_lib)) list_lru stored_codec tiny_nbt
       (\<lambda>_. 0) (mem_storage PgJsonb) None 10 0"

lemma jsonb_demo_fields:
  "storage (fst jsonb_demo) = Some (postgres_ops tiny_nbt sum_num_lib)" "cache_ops (fst jsonb_demo) = list_lru"
  "compressor (fst jsonb_demo) = stored_codec" "fastnbt (fst jsonb_demo) = tiny_nbt"
  "store (snd jsonb_demo) = mem_storage PgJsonb"
  by (simp_all add: jsonb_demo_def virtual_file_new_def)

subsection \<open>Properties\<close>

text \<open>C31: in JSONB mode the cache shows: after a write of a chunk its slot reads as the chunk that was
  written as long as the blob is cached, and as the chunk's canonical form (every integer a long,
  every float a double) once it is not, although nothing was written in between. (Here the database hands
  documents back as they are, no compound looks like a tagged array and the coordinates are integers.)\<close>

theorem jsonb_eviction_changes_chunk:
  fixes X Z X' Z' :: i32
  assumes lru: "lru_ok (cache_ops E) entries" and st: "storage E = Some (postgres_ops (fastnbt E) N)"
    and pg: "pg_ok (pool (store s)) jb view" and m: "mode (store s) = PgJsonb"
    and laws: "num_lib_ok N" "nbt_lib_ok (fastnbt E)" "zlib_inverse (compressor E)"
    and rel: "unat x < 32" "unat z < 32"
    and car: "carried E off data = Some ((X * 32 + x, Z * 32 + z), raw, b)"
    and v: "nbt_from_bytes (fastnbt E) raw = Some v" "plain v" "int_coords v" "jb (nbt_to_json N v) = nbt_to_json N v"
    and save: "pg_save_chunk (fastnbt E) N (X * 32 + x) (Z * 32 + z) raw (store s) = (Inr (), d)"
    and load: "pg_load_chunk (fastnbt E) N (X * 32 + x) (Z * 32 + z) d = (Inr r, d')"
    and canon: "nbt_to_bytes (fastnbt E) (canon v) = Some raw'" "compress_and_wrap_chunk (compressor E) raw' = Some b'"
    and c: "entries c (X * 32 + x, Z * 32 + z) = None"
  shows "let s' = write_at E off data X' Z' s; slot = get_chunk_file_offset x z
    in unwrap_and_decompress_chunk (compressor E) (fst (read_at E slot (length b) X Z s')) = Inr raw \<and>
       unwrap_and_decompress_chunk (compressor E) (fst (read_at E slot (length b') X Z (s'\<lparr>cache := c\<rparr>))) = Inr raw' \<and>
       nbt_from_bytes (fastnbt E) raw = Some v \<and> nbt_from_bytes (fastnbt E) raw' = Some (canon v)"
proof -
  let ?s = "write_at E off data X' Z' s" and ?p = "(X * 32 + x, Z * 32 + z)"
  have rp: "rel_pos (x, z)" using rel by (simp add: rel_pos_def)
  note carried = carriedD [OF car]
  have "save_chunk (postgres_ops (fastnbt E) N) (fst ?p) (snd ?p) raw (store s) = (Inr (), d)"
    using save by (simp add: postgres_ops_def)
  from write_at_carried [OF car st this, of X' Z']
  have s': "store ?s = d" "cache ?s = lru_put (cache_ops E) ?p b (cache s)" by simp_all
  have cached: "fst (read_at E (get_chunk_file_offset x z) (length b) X Z ?s) = b"
    using read_cached [OF lru rp, of ?s X Z b "length b"] s'(2) lru_okD(4) [OF lru] by simp
  note reload = jsonb_reload [OF pg m laws(1,2) v save load]
  have loaded: "load_chunk (postgres_ops (fastnbt E) N) (X * 32 + x) (Z * 32 + z) (store (?s\<lparr>cache := c\<rparr>)) = (Inr (Some raw'), d')"
    using load reload canon(1) by (simp add: postgres_ops_def s'(1))
  have decl: "declared_coords (fastnbt E) raw' = Some ?p"
    using reload canon(1) carried(4) by (simp add: good_nbt_def)
  obtain s1 where "fetch_chunk E (X * 32 + x) (Z * 32 + z) (?s\<lparr>cache := c\<rparr>) = (Some b', s1)"
    by (rule fetch_loaded [OF lru _ st loaded decl canon(2)]) (simp_all add: c)
  from read_fetched [OF rp this order_refl]
  have evicted: "fst (read_at E (get_chunk_file_offset x z) (length b') X Z (?s\<lparr>cache := c\<rparr>)) = b'" by simp
  have "nbt_from_bytes (fastnbt E) raw' = Some (canon v)"
    using laws(2) canon(1) by (simp add: nbt_lib_ok_def)
  then show ?thesis
    unfolding Let_def cached evicted
    using unwrap_compressed [OF laws(3) carried(5)] unwrap_compressed [OF laws(3) canon(2)] v(1) by blast
qed

theorem jsonb_eviction_changes_chunk_witness:
  "let s' = write_at (fst jsonb_demo) 8192 [0, 0, 0, 4, 2, 0, 1, 0] 0 0 (snd jsonb_demo); slot = get_chunk_file_offset 1 0
   in unwrap_and_decompress_chunk stored_codec (fst (read_at (fst jsonb_demo) slot 8 0 0 s')) = Inr [0, 1, 0] \<and>
      unwrap_and_decompress_chunk stored_codec (fst (read_at (fst jsonb_demo) slot 8 0 0 (s'\<lparr>cache := ([], 10)\<rparr>))) = Inr [1, 1, 0]"
proof -
  let ?E = "fst jsonb_demo" and ?s = "snd jsonb_demo" and ?data = "[0, 0, 0, 4, 2, 0, 1, 0] :: bytes"
  let ?v = "coords_nbt (\<lambda>b. VInt (scast b)) 1 0"
  let ?st = "mem_storage PgJsonb :: demo_storage"
  let ?d = "snd (pg_save_chunk tiny_nbt sum_num_lib 1 0 [0, 1, 0] ?st)"
  note fields = jsonb_demo_fields
  have lru: "lru_ok (cache_ops ?E) list_entries" by (simp add: fields list_lru_ok)
  have st: "storage ?E = Some (postgres_ops (fastnbt ?E) sum_num_lib)" by (simp add: fields)
  have pg: "pg_ok (pool (store ?s)) id mem_view" and m: "mode (store ?s) = PgJsonb" by (simp_all add: fields mem_client_ok)
  have laws: "num_lib_ok sum_num_lib" "nbt_lib_ok (fastnbt ?E)" "zlib_inverse (compressor ?E)"
    by (simp_all add: fields sum_num_lib_ok tiny_nbt_ok stored_codec_laws)
  have rel: "unat (1 :: i32) < 32" "unat (0 :: i32) < 32" by simp_all
  have same: "compressor ?E = compressor (fst (demo 0))" "fastnbt ?E = fastnbt (fst (demo 0))" by (simp_all add: fields)
  have "carried ?E 8192 ?data = carried (fst (demo 0)) 8192 ?data" unfolding carried_def same by (rule refl)
  then have car: "carried ?E 8192 ?data = Some ((0 * 32 + 1, 0 * 32 + 0), [0, 1, 0], ?data)"
    by (simp add: demo_carried)
  have v: "nbt_from_bytes (fastnbt ?E) [0, 1, 0] = Some ?v" "plain ?v" "int_coords ?v"
    by (simp add: fields tiny_nbt_def)
      (auto simp: coords_nbt_def looks_tagged_def fcard_finsert_disjoint int_coords_def int_tagged_def intro!: fmpred_upd)
  have parse: "nbt_from_bytes tiny_nbt [0, 1, 0] = Some ?v" using v(1) by (simp add: fields)
  have save: "pg_save_chunk (fastnbt ?E) sum_num_lib (0 * 32 + 1) (0 * 32 + 0) [0, 1, 0] (store ?s) = (Inr (), ?d)"
    by (simp add: fields pg_save_chunk_def pg_eval done_or_def mem_client_def parse)
  obtain r d' where load: "pg_load_chunk (fastnbt ?E) sum_num_lib (0 * 32 + 1) (0 * 32 + 0) ?d = (Inr r, d')"
    by (cases "nbt_to_bytes tiny_nbt (json_to_nbt sum_num_lib (nbt_to_json sum_num_lib ?v))")
       (simp_all add: fields pg_load_chunk_def pg_save_chunk_def pg_eval done_or_def mem_client_def parse mem_view_def)
  have "fmupd ''xPos'' (VInt 1) m \<noteq> fmupd ''xPos'' (VLong 1) m'" for m m'
    by (rule notI, drule arg_cong [where f = "\<lambda>m. fmlookup m ''xPos''"]) simp
  then have canon: "nbt_to_bytes (fastnbt ?E) (canon ?v) = Some [1, 1, 0]"
    by (simp add: fields tiny_nbt_def tiny_to_bytes_def coords_nbt_def fmmap_fmupd Let_def)
  have blob: "compress_and_wrap_chunk (compressor ?E) [1, 1, 0] = Some [0, 0, 0, 4, 2, 1, 1, 0]"
    by (simp add: fields stored_codec_def compress_and_wrap_chunk_def to_be_bytes_def)
  have none: "list_entries ([], 10) (0 * 32 + 1, 0 * 32 + 0) = None" by simp
  have eight: "length ?data = 8" "length [0, 0, 0, 4, 2, 1, 1, 0 :: u8] = 8" by simp_all
  have cd: "compressor ?E = stored_codec" by (simp add: fields)
  from jsonb_eviction_changes_chunk [OF lru st pg m laws rel car v _ save load canon blob none, of 0 0]
  show ?thesis unfolding Let_def eight cd by simp
qed

text \<open>A chunk that is not cached and whose stored data declare no coordinates, or others, is generated.\<close>

lemma fetch_mismatch:
  assumes lru: "lru_ok (cache_ops E) entries" and miss: "entries (cache s) (x, z) = None"
    and st: "storage E = Some ops" and load: "load_chunk ops x z (store s) = (Inr (Some raw), d)"
    and stored: "declared_coords (fastnbt E) raw \<noteq> Some (x, z)"
    and gen: "\<And>t. fst (generate_chunk E x z t) = Inr nbt" "declared_coords (fastnbt E) nbt = Some (x, z)"
    and blob: "compress_and_wrap_chunk (compressor E) nbt = Some b"
  obtains s1 where "fetch_chunk E x z s = (Some b, s1)"
proof -
  have "fst (lru_get (cache_ops E) (x, z) (cache s)) = None" by (simp add: lru_okD(2) [OF lru] miss)
  then obtain c where get: "lru_get (cache_ops E) (x, z) (cache s) = (None, c)" by (metis prod.collapse)
  obtain e where bad: "verify_chunk_coords (fastnbt E) raw x z = Inl e"
    using stored by (cases "verify_chunk_coords (fastnbt E) raw x z") (auto simp: verify_chunk_coords_declared)
  have ok: "verify_chunk_coords (fastnbt E) nbt x z = Inr ()" by (simp add: verify_chunk_coords_declared gen(2))
  have generated: "\<exists>s2. generate_timed E x z s1 = (Inr nbt, s2)" for s1
    using gen(1) [of "ticks s1"] by (auto simp: generate_timed_def split: prod.split)
  obtain s2 where "load_or_generate E x z (note_metrics record_cache_miss (s\<lparr>cache := c\<rparr>)) = (Inr nbt, s2)"
    using generated by (auto simp: load_or_generate_def st load bad Let_def)
  with that show ?thesis by (simp add: fetch_chunk_def get ok blob Let_def)
qed

text \<open>C17: a write whose data decode but declare no coordinates is taken all the same: it is saved under the
  chunk of the offset and cached. While it is cached the slot reads as what was written; once it is
  not, the stored data are found inconsistent and the slot reads as the generated chunk, although
  the storage still holds what was written. Such writes are what the properties of the served image
  leave out.\<close>

theorem undeclared_write_unstable:
  fixes X Z :: i32
  assumes cs: "chunk_storage ops cont eff sinv" and st: "storage E = Some ops" and inv: "sinv (store s)"
    and lru: "lru_ok (cache_ops E) entries"
    and at: "get_chunk_coords_from_offset off = Some (x, z)"
    and data: "unwrap_and_decompress_chunk (compressor E) data = Inr raw" "declared_coords (fastnbt E) raw = None"
      "compress_and_wrap_chunk (compressor E) raw = Some b"
    and save: "save_chunk ops (X * 32 + x) (Z * 32 + z) raw (store s) = (Inr (), d)" and eff: "eff raw = Some (Some raw)"
    and load: "load_chunk ops (X * 32 + x) (Z * 32 + z) d = (Inr r, d')"
    and gen: "\<And>t. fst (generate_chunk E (X * 32 + x) (Z * 32 + z) t) = Inr nbt"
      "declared_coords (fastnbt E) nbt = Some (X * 32 + x, Z * 32 + z)"
      "compress_and_wrap_chunk (compressor E) nbt = Some g"
    and c: "entries c (X * 32 + x, Z * 32 + z) = None"
  shows "let s' = write_at E off data X Z s; slot = get_chunk_file_offset x z
    in cont (store s') (X * 32 + x, Z * 32 + z) = Some raw \<and>
       fst (read_at E slot (length b) X Z s') = b \<and>
       fst (read_at E slot (length g) X Z (s'\<lparr>cache := c\<rparr>)) = g"
proof -
  let ?s = "write_at E off data X Z s" and ?p = "(X * 32 + x, Z * 32 + z)"
  have rp: "rel_pos (x, z)" using coords_SomeD [OF at] by simp
  have "\<not> unat off < header_len" using coords_None_iff [of off] at by auto
  then have off: "HEADER_BYTES \<le> off" by (simp add: HEADER_BYTES_def word_le_nat_alt)
  obtain e where bad: "verify_chunk_coords (fastnbt E) raw (X * 32 + x) (Z * 32 + z) = Inl e"
    using data(2) by (cases "verify_chunk_coords (fastnbt E) raw (X * 32 + x) (Z * 32 + z)") (auto simp: verify_chunk_coords_declared)
  have s': "store ?s = d" "cache ?s = lru_put (cache_ops E) ?p b (cache s)"
    using save by (simp_all add: write_at_def off at data bad real_coords_declared st Let_def)
  have stored: "cont d ?p = Some raw"
    using chunk_storage.save_ok [OF cs inv save] by (simp add: apply_effect_def eff)
  have cached: "fst (read_at E (get_chunk_file_offset x z) (length b) X Z ?s) = b"
    using read_cached [OF lru rp, of ?s X Z b "length b"] s'(2) lru_okD(4) [OF lru] by simp
  have "sinv d" using chunk_storage.invar_save [OF cs inv, of "X * 32 + x" "Z * 32 + z" raw] save by simp
  then have "r = Some raw" using chunk_storage.load_ok [OF cs _ load] stored by simp
  then have loaded: "load_chunk ops (X * 32 + x) (Z * 32 + z) (store (?s\<lparr>cache := c\<rparr>)) = (Inr (Some raw), d')"
    using load s'(1) by simp
  obtain s1 where "fetch_chunk E (X * 32 + x) (Z * 32 + z) (?s\<lparr>cache := c\<rparr>) = (Some g, s1)"
    by (rule fetch_mismatch [OF lru _ st loaded _ gen]) (simp_all add: c data(2))
  from read_fetched [OF rp this order_refl]
  show ?thesis using stored cached s'(1) by (simp add: Let_def)
qed

theorem undeclared_write_unstable_witness:
  "let s' = write_at (fst (demo 0)) 8192 [0, 0, 0, 2, 2, 9] 0 0 (snd (demo 0)); slot = get_chunk_file_offset 0 0
   in raw_contents mem_view (store s') (0, 0) = Some [9] \<and>
      fst (read_at (fst (demo 0)) slot 6 0 0 s') = [0, 0, 0, 2, 2, 9] \<and>
      fst (read_at (fst (demo 0)) slot 8 0 0 (s'\<lparr>cache := ([], 10)\<rparr>)) = [0, 0, 0, 4, 2, 0, 0, 0]"
proof -
  let ?E = "fst (demo 0)" and ?s = "snd (demo 0)" and ?ops = "postgres_ops tiny_nbt sum_num_lib :: demo_storage storage_ops"
  let ?d = "snd (save_chunk ?ops (0 * 32 + 0) (0 * 32 + 0) [9] (store ?s))"
  have inv: "lawful PgRaw id mem_view (store ?s)" by (simp add: lawful_def mem_client_ok)
  have st: "storage ?E = Some ?ops" and lru: "lru_ok (cache_ops ?E) list_entries" by (simp_all add: list_lru_ok)
  have data: "unwrap_and_decompress_chunk (compressor ?E) [0, 0, 0, 2, 2, 9] = Inr [9]"
      "declared_coords (fastnbt ?E) [9] = None" "compress_and_wrap_chunk (compressor ?E) [9] = Some [0, 0, 0, 2, 2, 9]"
    by (simp_all add: unwrap_and_decompress_chunk_def compression_consts decoded_def stored_codec_def
        declared_coords_def tiny_nbt_def compress_and_wrap_chunk_def to_be_bytes_def)
  have save: "save_chunk ?ops (0 * 32 + 0) (0 * 32 + 0) [9] (store ?s) = (Inr (), ?d)"
    by (simp add: postgres_ops_def pg_save_chunk_def pg_eval done_or_def mem_client_def)
  obtain r d' where load: "load_chunk ?ops (0 * 32 + 0) (0 * 32 + 0) ?d = (Inr r, d')"
    by (simp add: postgres_ops_def pg_load_chunk_def pg_save_chunk_def pg_eval done_or_def mem_client_def mem_query_def mem_view_def)
  have gen: "fst (generate_chunk ?E (0 * 32 + 0) (0 * 32 + 0) t) = Inr [0, 0, 0]" for t by (simp add: tiny_generator_def)
  have own: "declared_coords (fastnbt ?E) [0, 0, 0] = Some (0 * 32 + 0, 0 * 32 + 0)" by (simp add: tiny_declared)
  have blob: "compress_and_wrap_chunk (compressor ?E) [0, 0, 0] = Some [0, 0, 0, 4, 2, 0, 0, 0]"
    by (simp add: stored_codec_def compress_and_wrap_chunk_def to_be_bytes_def)
  have none: "list_entries ([], 10) (0 * 32 + 0, 0 * 32 + 0) = None" by simp
  have lens: "length [0, 0, 0, 2, 2, 9 :: u8] = 6" "length [0, 0, 0, 4, 2, 0, 0, 0 :: u8] = 8" by simp_all
  have at: "(0 * 32 + 0, 0 * 32 + 0) = ((0, 0) :: chunk_pos)" by simp
  from undeclared_write_unstable [OF raw_chunk_storage [where jb = id] st inv lru coords_8192 data save _ load gen own blob none]
  show ?thesis unfolding lens at by simp
qed

end
