(* ===== verification/Handlers.thy ===== *)
theory Handlers
  imports Virtual_File
begin

text \<open>
  \<open>read_at\<close> and \<open>write_at\<close> cut where other threads can come in between: at each lock of the cache,
  each call of the storage and each call of the generator. \<open>read\<close> runs on the thread of the
  FUSE session, every \<open>write\<close> on a thread of its own (\<open>hoppermc-fs/src/lib.rs\<close>), and both beside the
  prefetch tasks. The theorem of this theory is that a handler that nobody interrupts does what
  \<open>read_at\<close> and \<open>write_at\<close> do; \<open>Concurrency\<close> lets them interrupt each other.
\<close>

subsection \<open>The steps of a handler\<close>

text \<open>A read on its way: the arguments of \<open>read_at\<close> and \<open>response_data\<close>.\<close>

record reader =
  at_offset :: u64
  wanted :: nat
  of_x :: i32
  of_z :: i32
  answer :: bytes

text \<open>Where a handler stands. A reader: before the next turn of its loop; past a cache miss, before
  the storage; before the generator; with the NBT, before the compression and the insertion into
  the cache; behind the loop; done. A writer: before the save, with the chunk it saves; before the
  update of the cache; done. Relative coordinates are kept as the loop has them.\<close>

datatype handler =
    At_lookup reader
  | At_load reader i32 i32
  | At_generate reader i32 i32
  | At_fill reader i32 i32 bytes
  | At_end reader
  | Replied reader
  | At_save chunk_pos bytes
  | At_refresh chunk_pos bytes
  | Written

definition position :: "reader \<Rightarrow> u64" where
  "position r = at_offset r + of_nat (length (answer r))"

definition chunk_of :: "reader \<Rightarrow> i32 \<Rightarrow> i32 \<Rightarrow> chunk_pos" where
  "chunk_of r rel_x rel_z = (of_x r * 32 + rel_x, of_z r * 32 + rel_z)"

text \<open>The end of a turn, with the blob.\<close>

definition take_piece :: "reader \<Rightarrow> i32 \<Rightarrow> i32 \<Rightarrow> bytes \<Rightarrow> handler" where
  "take_piece r rel_x rel_z chunk_blob =
     (case slot_piece rel_x rel_z (position r) (wanted r - length (answer r)) chunk_blob of
        None \<Rightarrow> At_end r
      | Some piece \<Rightarrow> At_lookup (r\<lparr>answer := answer r @ piece\<rparr>))"

definition start_read :: "('s, 'c) vf_env \<Rightarrow> u64 \<Rightarrow> nat \<Rightarrow> i32 \<Rightarrow> i32 \<Rightarrow> handler" where
  "start_read E offset n region_x region_z =
     At_lookup \<lparr>at_offset = offset, wanted = n, of_x = region_x, of_z = region_z, answer = read_header E offset n\<rparr>"

text \<open>What \<open>write_at\<close> finds out before it touches the storage: the chunk to save, and where.\<close>

definition start_write :: "('s, 'c) vf_env \<Rightarrow> u64 \<Rightarrow> bytes \<Rightarrow> i32 \<Rightarrow> i32 \<Rightarrow> handler" where
  "start_write E offset data region_x region_z =
     (if offset \<ge> HEADER_BYTES then
        case get_chunk_coords_from_offset offset of
          None \<Rightarrow> Written
        | Some (rel_x, rel_z) \<Rightarrow>
            (case unwrap_and_decompress_chunk (compressor E) data of
               Inl e \<Rightarrow> Written
             | Inr raw_nbt \<Rightarrow>
                 let abs_x = region_x * 32 + rel_x;
                     abs_z = region_z * 32 + rel_z
                 in At_save
                      (case verify_chunk_coords (fastnbt E) raw_nbt abs_x abs_z of
                         Inr _ \<Rightarrow> (abs_x, abs_z)
                       | Inl e \<Rightarrow> real_coords (fastnbt E) raw_nbt abs_x abs_z)
                      raw_nbt)
      else Written)"

fun handler_step ::
    "('s, 'c) vf_env \<Rightarrow> handler \<Rightarrow> ('s, 'c) vf_state \<Rightarrow> (handler \<times> ('s, 'c) vf_state) option" where
  "handler_step E (At_lookup r) s =
     Some (if length (answer r) < wanted r then
             case get_chunk_coords_from_offset (position r) of
               None \<Rightarrow> (At_end r, s)
             | Some (rel_x, rel_z) \<Rightarrow>
                 (case lru_get (cache_ops E) (chunk_of r rel_x rel_z) (cache s) of
                    (Some blob, c) \<Rightarrow> (take_piece r rel_x rel_z blob, note_metrics record_cache_hit (s\<lparr>cache := c\<rparr>))
                  | (None, c) \<Rightarrow> (At_load r rel_x rel_z, note_metrics record_cache_miss (s\<lparr>cache := c\<rparr>)))
           else (At_end r, s))"
| "handler_step E (At_load r rel_x rel_z) s =
     Some (case (storage E, chunk_of r rel_x rel_z) of
             (Some ops, abs_x, abs_z) \<Rightarrow>
               (case load_chunk ops abs_x abs_z (store s) of
                  (storage_data, d) \<Rightarrow>
                    ((case storage_data of
                        Inr (Some raw_nbt) \<Rightarrow>
                          (case verify_chunk_coords (fastnbt E) raw_nbt abs_x abs_z of
                             Inl e \<Rightarrow> At_generate r rel_x rel_z
                           | Inr _ \<Rightarrow> At_fill r rel_x rel_z raw_nbt)
                      | _ \<Rightarrow> At_generate r rel_x rel_z),
                     note_elapsed record_load E (after_load storage_data d s)))
           | (None, _) \<Rightarrow> (At_generate r rel_x rel_z, s))"
| "handler_step E (At_generate r rel_x rel_z) s =
     Some (case generate_timed E (fst (chunk_of r rel_x rel_z)) (snd (chunk_of r rel_x rel_z)) s of
             (Inl e, s) \<Rightarrow> (At_end r, s)
           | (Inr nbt_data, s) \<Rightarrow> (At_fill r rel_x rel_z nbt_data, s))"
| "handler_step E (At_fill r rel_x rel_z nbt_data) s =
     Some (let (abs_x, abs_z) = chunk_of r rel_x rel_z
           in case verify_chunk_coords (fastnbt E) nbt_data abs_x abs_z of
                Inl e \<Rightarrow> (At_end r, s)
              | Inr _ \<Rightarrow>
                  let blob_opt = compress_and_wrap_chunk (compressor E) nbt_data;
                      s = note_elapsed record_compression E s
                  in case blob_opt of
                       None \<Rightarrow> (At_end r, s)
                     | Some blob \<Rightarrow>
                         let s = s\<lparr>cache := lru_put (cache_ops E) (abs_x, abs_z) blob (cache s)\<rparr>;
                             s = note_metrics (record_chunk_sizes (length nbt_data) (length blob)) s;
                             s = (if prefetch_radius E > 0 then trigger_prefetch E abs_x abs_z s else s)
                         in (take_piece r rel_x rel_z blob, s))"
| "handler_step E (At_end r) s =
     Some (let response_data =
                 (if length (answer r) < wanted r
                  then answer r @ zeros (wanted r - length (answer r)) else answer r)
           in (Replied (r\<lparr>answer := response_data\<rparr>),
               note_elapsed (\<lambda>d. record_fuse_request d (length response_data)) E s))"
| "handler_step E (Replied r) s = None"
| "handler_step E (At_save p raw_nbt) s =
     Some (case storage E of
             None \<Rightarrow> (Written, s)
           | Some ops \<Rightarrow>
               (case save_chunk ops (fst p) (snd p) raw_nbt (store s) of
                  (result, d) \<Rightarrow>
                    ((case result of
                        Inl e \<Rightarrow> Written
                      | Inr _ \<Rightarrow>
                          (case compress_and_wrap_chunk (compressor E) raw_nbt of
                             None \<Rightarrow> Written
                           | Some new_blob \<Rightarrow> At_refresh p new_blob)),
                     note_elapsed record_save E (s\<lparr>store := d\<rparr>))))"
| "handler_step E (At_refresh p new_blob) s =
     Some (Written, s\<lparr>cache := lru_put (cache_ops E) p new_blob (cache s)\<rparr>)"
| "handler_step E Written s = None"

subsection \<open>Running alone\<close>

fun run_handler ::
    "nat \<Rightarrow> ('s, 'c) vf_env \<Rightarrow> handler \<Rightarrow> ('s, 'c) vf_state \<Rightarrow> handler \<times> ('s, 'c) vf_state" where
  "run_handler 0 E h s = (h, s)"
| "run_handler (Suc n) E h s =
     (case handler_step E h s of None \<Rightarrow> (h, s) | Some (h', s') \<Rightarrow> run_handler n E h' s')"

lemma run_handler_add:
  "run_handler j E h s = (h1, s1) \<Longrightarrow> run_handler (j + k) E h s = run_handler k E h1 s1"
proof (induction j arbitrary: h s)
  case (Suc j)
  have stuck: "run_handler k E h s = (h, s)" if "handler_step E h s = None"
    using that by (cases k) simp_all
  show ?case using Suc stuck by (auto split: option.splits)
qed simp

lemma run_handler_stop: "run_handler k E (Replied r) s = (Replied r, s)" "run_handler k E Written s = (Written, s)"
  by (cases k; simp)+

text \<open>The steps behind a cache miss that find the NBT.\<close>

lemma run_load:
  assumes lg: "load_or_generate E (fst (chunk_of r x z)) (snd (chunk_of r x z)) s = (got, s1)"
  obtains j where "j \<le> 2"
    and "run_handler j E (At_load r x z) s = (case got of Inl e \<Rightarrow> At_end r | Inr d \<Rightarrow> At_fill r x z d, s1)"
proof -
  obtain px pz where p: "chunk_of r x z = (px, pz)" by fastforce
  have gen: "run_handler 2 E (At_load r x z) s = (case got of Inl e \<Rightarrow> At_end r | Inr d \<Rightarrow> At_fill r x z d, s1)"
    if "handler_step E (At_load r x z) s = Some (At_generate r x z, t)" and "generate_timed E px pz t = (got, s1)" for t
    using that by (cases got) (simp_all add: numeral_2_eq_2 p)
  show ?thesis
  proof (cases "storage E")
    case None
    then show ?thesis using gen [of s] lg by (intro that [of 2]) (simp_all add: load_or_generate_def p)
  next
    case (Some ops)
    obtain sd d where load: "load_chunk ops px pz (store s) = (sd, d)" by fastforce
    let ?t = "note_elapsed record_load E (after_load sd d s)"
    note lg' = lg [unfolded load_or_generate_def Some option.case p fst_conv snd_conv load prod.case Let_def]
    show ?thesis
    proof (cases "\<exists>raw u. sd = Inr (Some raw) \<and> verify_chunk_coords (fastnbt E) raw px pz = Inr u")
      case True
      then obtain raw u where raw: "sd = Inr (Some raw)" "verify_chunk_coords (fastnbt E) raw px pz = Inr u" by blast
      then have "got = Inr raw" "s1 = ?t" using lg' by simp_all
      then show ?thesis using load raw Some by (intro that [of 1]) (simp_all add: p)
    next
      case False
      then have "handler_step E (At_load r x z) s = Some (At_generate r x z, ?t)"
        and "generate_timed E px pz ?t = (got, s1)"
        using lg' load Some by (auto simp: p split: sum.splits option.splits)
      then show ?thesis using gen by (intro that [of 2]) simp_all
    qed
  qed
qed

text \<open>One turn of the loop, up to the blob or the end.\<close>

lemma run_lookup:
  assumes more: "length (answer r) < wanted r" and at: "get_chunk_coords_from_offset (position r) = Some (x, z)"
    and fetch: "fetch_chunk E (of_x r * 32 + x) (of_z r * 32 + z) s = (res, s1)"
  obtains j where "j \<le> 4"
    and "run_handler j E (At_lookup r) s = (case res of None \<Rightarrow> At_end r | Some b \<Rightarrow> take_piece r x z b, s1)"
proof -
  let ?k = "(of_x r * 32 + x, of_z r * 32 + z)"
  have k: "chunk_of r x z = ?k" by (simp add: chunk_of_def)
  obtain hit c where get: "lru_get (cache_ops E) ?k (cache s) = (hit, c)" by fastforce
  show ?thesis
  proof (cases hit)
    case (Some b)
    then have "res = Some b" "s1 = note_metrics record_cache_hit (s\<lparr>cache := c\<rparr>)"
      using fetch get by (simp_all add: fetch_chunk_def)
    then show ?thesis using more get Some by (intro that [of 1]) (simp_all add: at k)
  next
    case None
    let ?s = "note_metrics record_cache_miss (s\<lparr>cache := c\<rparr>)"
    have one: "run_handler 1 E (At_lookup r) s = (At_load r x z, ?s)"
      using more get None by (simp add: at k)
    obtain got s2 where lg: "load_or_generate E (fst ?k) (snd ?k) ?s = (got, s2)" by fastforce
    obtain j where j: "j \<le> 2"
      and two: "run_handler j E (At_load r x z) ?s = (case got of Inl e \<Rightarrow> At_end r | Inr d \<Rightarrow> At_fill r x z d, s2)"
      by (rule run_load [OF lg [folded k]])
    note fetch' = fetch [unfolded fetch_chunk_def get None option.case prod.case lg [unfolded fst_conv snd_conv]]
    show ?thesis
    proof (cases got)
      case (Inl e)
      then show ?thesis using run_handler_add [OF one, of j] two fetch' j by (intro that [of "1 + j"]) simp_all
    next
      case (Inr d)
      have "run_handler 1 E (At_fill r x z d) s2 = (case res of None \<Rightarrow> At_end r | Some b \<Rightarrow> take_piece r x z b, s1)"
        using fetch' Inr by (auto simp: k Let_def split: sum.splits option.splits)
      then show ?thesis
        using run_handler_add [OF one, of "j + 1"] run_handler_add [OF two, of 1] Inr j
        by (intro that [of "1 + (j + 1)"]) simp_all
    qed
  qed
qed

text \<open>The whole loop: at most four steps for each byte still wanted, and two more.\<close>

lemma run_loop:
  assumes "read_loop (fetch_chunk E) (of_x r) (of_z r) (at_offset r) (wanted r) (answer r) s = (d, s1)"
  obtains j where "j \<le> 4 * (wanted r - length (answer r)) + 1"
    and "run_handler j E (At_lookup r) s = (At_end (r\<lparr>answer := d\<rparr>), s1)"
  using assms
proof (induction "wanted r - length (answer r)" arbitrary: r s thesis rule: less_induct)
  case less
  note loop = less.prems(2) [unfolded read_loop.simps [of "fetch_chunk E" "of_x r" "of_z r" "at_offset r" "wanted r" "answer r" s]
      Let_def, folded position_def]
  have stop: thesis if "handler_step E (At_lookup r) s = Some (At_end r, s)" "d = answer r" "s1 = s"
    using that by (intro less.prems(1) [of 1]) simp_all
  show thesis
  proof (cases "length (answer r) < wanted r")
    case False
    then have "d = answer r" "s1 = s" using loop by simp_all
    then show thesis using False by (intro stop) simp_all
  next
    case True
    show thesis
    proof (cases "get_chunk_coords_from_offset (position r)")
      case None
      then have "d = answer r" "s1 = s" using loop True by simp_all
      then show thesis using None True by (intro stop) simp_all
    next
      case (Some c)
      obtain x z where at: "get_chunk_coords_from_offset (position r) = Some (x, z)" using Some by (cases c) simp
      obtain res s2 where fetch: "fetch_chunk E (of_x r * 32 + x) (of_z r * 32 + z) s = (res, s2)" by fastforce
      obtain j where j: "j \<le> 4"
        and turn: "run_handler j E (At_lookup r) s = (case res of None \<Rightarrow> At_end r | Some b \<Rightarrow> take_piece r x z b, s2)"
        by (rule run_lookup [OF True at fetch])
      show thesis
      proof (cases "\<exists>b piece. res = Some b \<and> slot_piece x z (position r) (wanted r - length (answer r)) b = Some piece")
        case False
        then have "run_handler j E (At_lookup r) s = (At_end r, s2)" "d = answer r" "s1 = s2"
          using turn loop at True fetch by (auto simp: take_piece_def split: option.splits)
        then show thesis using j True by (intro less.prems(1) [of j]) simp_all
      next
        case True
        then obtain b piece where b: "res = Some b"
          and piece: "slot_piece x z (position r) (wanted r - length (answer r)) b = Some piece" by blast
        let ?r = "r\<lparr>answer := answer r @ piece\<rparr>"
        note more = \<open>length (answer r) < wanted r\<close>
        have shorter: "wanted ?r - length (answer ?r) < wanted r - length (answer r)"
          using slot_piece_progress [OF at more piece] by simp
        have rec: "read_loop (fetch_chunk E) (of_x ?r) (of_z ?r) (at_offset ?r) (wanted ?r) (answer ?r) s2 = (d, s1)"
          using loop more at fetch b piece by simp
        obtain k where k: "k \<le> 4 * (wanted ?r - length (answer ?r)) + 1"
          and rest: "run_handler k E (At_lookup ?r) s2 = (At_end (?r\<lparr>answer := d\<rparr>), s1)"
          by (rule less.hyps [OF shorter _ rec])
        have "run_handler j E (At_lookup r) s = (At_lookup ?r, s2)"
          using turn b piece by (simp add: take_piece_def)
        from run_handler_add [OF this, of k] show thesis
          using rest k j shorter by (intro less.prems(1) [of "j + k"]) simp_all
      qed
    qed
  qed
qed

lemma read_alone:
  obtains r where "run_handler (4 * n + 2) E (start_read E off n X Z) s = (Replied r, snd (read_at E off n X Z s))"
    and "answer r = fst (read_at E off n X Z s)" and "at_offset r = off" and "wanted r = n" and "of_x r = X" and "of_z r = Z"
proof -
  let ?h = "read_header E off n"
  let ?r = "\<lparr>at_offset = off, wanted = n, of_x = X, of_z = Z, answer = ?h\<rparr>"
  obtain d s1 where loop: "read_loop (fetch_chunk E) X Z off n ?h s = (d, s1)" by fastforce
  obtain j where j: "j \<le> 4 * (n - length ?h) + 1" and run: "run_handler j E (At_lookup ?r) s = (At_end (?r\<lparr>answer := d\<rparr>), s1)"
    using run_loop [of E ?r s d s1] loop by auto
  define k where "k = 4 * n + 1 - j"
  have "4 * n + 2 = j + Suc k" using j by (simp add: k_def)
  with run_handler_add [OF run, of "Suc k"] show ?thesis
    by (intro that [of "\<lparr>at_offset = off, wanted = n, of_x = X, of_z = Z, answer = fst (read_at E off n X Z s)\<rparr>"])
       (simp_all add: start_read_def read_at_def loop Let_def run_handler_stop)
qed

lemma write_alone: "run_handler 2 E (start_write E off data X Z) s = (Written, write_at E off data X Z s)"
  by (auto simp: start_write_def write_at_def Let_def numeral_2_eq_2 split: option.split prod.split sum.split)

text \<open>Cut into steps, the handlers are still the handlers: one that is not interrupted answers and
  changes the state as \<open>read_at\<close> or \<open>write_at\<close> does, a read after at most four steps for each byte and
  two more, a write after at most two.\<close>

lemma handlers_alone:
  "(\<exists>r. run_handler (4 * n + 2) E (start_read E off n X Z) s = (Replied r, snd (read_at E off n X Z s)) \<and>
      answer r = fst (read_at E off n X Z s)) \<and>
   run_handler 2 E (start_write E off data X Z) s = (Written, write_at E off data X Z s)"
  by (rule read_alone [of n E off X Z s], intro conjI exI write_alone) simp_all

end
