(* ===== verification/Concurrency.thy ===== *)
theory Concurrency
  imports Serving Handlers
begin

text \<open>
  The threads of the file system beside each other, as a transition system: prefetch tasks of the
  tokio runtime and handlers of reads and writes, each cut into the steps of \<open>task_step\<close> and
  \<open>handler_step\<close>. A configuration is the shared state, the spawned tasks and the handlers. The
  properties: the semaphore lets at most two tasks past it, and everything that was started comes to
  rest. \<open>Interleaving\<close> has what holds of the answers, \<open>Races\<close> what does not.
\<close>

subsection \<open>The transition system\<close>

text \<open>A handler carries the moment its request came in, as an index into the states of the session.\<close>

type_synonym handlers = "(nat \<times> handler) list"
type_synonym ('s, 'c) config = "('s, 'c) vf_state \<times> task list \<times> handlers"

text \<open>\<open>ok\<close> restricts the steps of handlers, given the tasks and handlers there are; \<open>anything\<close> does
  not.\<close>

type_synonym guard = "handler \<Rightarrow> task list \<Rightarrow> handlers \<Rightarrow> bool"

definition anything :: guard where
  "anything h ts hs = True"

inductive step :: "('s, 'c) vf_env \<Rightarrow> guard \<Rightarrow> ('s, 'c) config \<Rightarrow> ('s, 'c) config \<Rightarrow> bool" for E ok where
  Start_task: "spawned s = p # ps \<Longrightarrow> step E ok (s, ts, hs) (s\<lparr>spawned := ps\<rparr>, ts @ [Check_cache p], hs)"
| Run_task: "i < length ts \<Longrightarrow> task_step E joined (ts ! i) s = Some (t', s') \<Longrightarrow>
    step E ok (s, ts, hs) (s', ts[i := t'], hs)"
| Run_handler: "i < length hs \<Longrightarrow> hs ! i = (k, h) \<Longrightarrow> ok h ts hs \<Longrightarrow> handler_step E h s = Some (h', s') \<Longrightarrow>
    step E ok (s, ts, hs) (s', ts, hs[i := (k, h')])"

inductive_cases stepE: "step E ok (s, ts, hs) (s', ts', hs')"

text \<open>A session from a state on: the states it has been in, the tasks and the handlers. Requests may
  come in at any time; the size of a read is a \<open>u32\<close>.\<close>

inductive session ::
    "('s, 'c) vf_env \<Rightarrow> guard \<Rightarrow> ('s, 'c) vf_state \<Rightarrow> ('s, 'c) vf_state list \<Rightarrow> task list \<Rightarrow> handlers \<Rightarrow> bool"
  for E ok s0 where
  Begin: "session E ok s0 [s0] [] []"
| Step: "session E ok s0 past ts hs \<Longrightarrow> step E ok (last past, ts, hs) (s', ts', hs') \<Longrightarrow>
    session E ok s0 (past @ [s']) ts' hs'"
| Read_request: "session E ok s0 past ts hs \<Longrightarrow> n < 2 ^ 32 \<Longrightarrow>
    session E ok s0 past ts (hs @ [(length past - 1, start_read E off n X Z)])"
| Write_request: "session E ok s0 past ts hs \<Longrightarrow>
    session E ok s0 past ts (hs @ [(length past - 1, start_write E off data X Z)])"

lemma step_mono: "step E ok c c' \<Longrightarrow> (\<And>h ts hs. ok h ts hs \<Longrightarrow> ok' h ts hs) \<Longrightarrow> step E ok' c c'"
  by (induction rule: step.induct) (auto intro: step.intros)

lemma session_mono:
  "session E ok s0 past ts hs \<Longrightarrow> (\<And>h ts hs. ok h ts hs \<Longrightarrow> ok' h ts hs) \<Longrightarrow> session E ok' s0 past ts hs"
  by (induction rule: session.induct) (blast intro: session.intros step_mono)+

fun holds_permit :: "task \<Rightarrow> bool" where
  "holds_permit (Check_cache p) = False"
| "holds_permit (Await_permit p) = False"
| "holds_permit Finished = False"
| "holds_permit _ = True"

definition holders :: "task list \<Rightarrow> nat" where
  "holders ts = length (filter holds_permit ts)"

subsection \<open>The semaphore\<close>

lemma generate_timed_frame:
  "permits (snd (generate_timed E x z s)) = permits s" "spawned (snd (generate_timed E x z s)) = spawned s"
  by (simp_all add: generate_timed_def split_beta)

lemma task_step_permits:
  "task_step E joined t s = Some (t', s') \<Longrightarrow>
     permits s' + of_bool (holds_permit t') = permits s + of_bool (holds_permit t)"
proof (induction E joined t s rule: task_step.induct)
  case (4 E joined p s)
  then show ?case by (auto split: option.splits prod.splits sum.splits)
next
  case (5 E joined p s)
  obtain r s1 where g: "generate_timed E (fst p) (snd p) s = (r, s1)" by fastforce
  then have "permits s1 = permits s" using generate_timed_frame(1) [of E "fst p" "snd p" s] by simp
  with 5 g show ?case by (auto split: sum.splits bool.splits)
qed (auto split: if_splits option.splits)

lemma handler_step_permits: "handler_step E h s = Some (h', s') \<Longrightarrow> permits s' = permits s"
proof (induction E h s rule: handler_step.induct)
  case (3 E r x z s)
  obtain p q where p: "chunk_of r x z = (p, q)" by fastforce
  obtain g s1 where g: "generate_timed E p q s = (g, s1)" by fastforce
  then have "permits s1 = permits s" using generate_timed_frame(1) [of E p q s] by simp
  with 3 g p show ?case by (auto split: sum.splits)
qed (auto simp: Let_def split: if_splits option.splits prod.splits sum.splits)

lemma holders_update:
  "i < length ts \<Longrightarrow> holders (ts[i := t]) + of_bool (holds_permit (ts ! i)) = holders ts + of_bool (holds_permit t)"
proof (induction ts arbitrary: i)
  case (Cons a ts)
  then show ?case by (cases i) (auto simp: holders_def)
qed simp

lemma step_permits: "step E ok (s, ts, hs) (s', ts', hs') \<Longrightarrow> permits s' + holders ts' = permits s + holders ts"
proof (elim stepE)
  fix i joined t'
  assume "i < length ts" "ts' = ts[i := t']" "task_step E joined (ts ! i) s = Some (t', s')"
  then show ?thesis using task_step_permits [of E joined "ts ! i" s t' s'] holders_update [of i ts t'] by simp
qed (simp_all add: holders_def handler_step_permits)

lemma session_permits: "session E ok s0 past ts hs \<Longrightarrow> permits (last past) + holders ts = permits s0"
proof (induction rule: session.induct)
  case (Step past ts hs s' ts' hs')
  then show ?case using step_permits [OF Step.hyps(2)] by simp
qed (simp_all add: holders_def)

subsection \<open>Writers\<close>

text \<open>A write that carries a chunk has only the save and the update of the cache before it.\<close>

lemma start_write_carried:
  assumes "carried E off data = Some (p, raw, b)"
  shows "start_write E off data X Z = At_save p raw"
proof -
  note c = carriedD [OF assms]
  obtain x z where "get_chunk_coords_from_offset off = Some (x, z)" using c(1) by fastforce
  then show ?thesis using c(2,3) by (simp add: start_write_def save_target [OF c(4)] Let_def)
qed

lemma save_step:
  assumes "storage E = Some ops" and "save_chunk ops (fst p) (snd p) raw (store s) = (Inr (), d)"
    and "compress_and_wrap_chunk (compressor E) raw = Some b"
  obtains s' where "handler_step E (At_save p raw) s = Some (At_refresh p b, s')" and "store s' = d" and "cache s' = cache s"
  using assms by (auto intro: that)

subsection \<open>What is left to do\<close>

fun steps_left :: "task \<Rightarrow> nat" where
  "steps_left (Check_cache p) = 7"
| "steps_left (Await_permit p) = 6"
| "steps_left (Check_again p) = 5"
| "steps_left (Check_db p) = 4"
| "steps_left (Generate p) = 3"
| "steps_left (Save_db p d) = 2"
| "steps_left (Fill_cache p d) = 1"
| "steps_left Finished = 0"

definition bytes_left :: "reader \<Rightarrow> nat" where
  "bytes_left r = wanted r - length (answer r)"

fun turns_left :: "handler \<Rightarrow> nat" where
  "turns_left (At_lookup r) = 4 * bytes_left r + 2"
| "turns_left (At_load r x z) = 4 * bytes_left r + 1"
| "turns_left (At_generate r x z) = 4 * bytes_left r"
| "turns_left (At_fill r x z d) = 4 * bytes_left r - 1"
| "turns_left (At_end r) = 1"
| "turns_left (At_save p d) = 2"
| "turns_left (At_refresh p b) = 1"
| "turns_left (Replied r) = 0"
| "turns_left Written = 0"

text \<open>A reader that looks for a chunk has a position in that chunk's slot and bytes to read.\<close>

fun in_slot :: "handler \<Rightarrow> bool" where
  "in_slot (At_load r x z) = (length (answer r) < wanted r \<and> get_chunk_coords_from_offset (position r) = Some (x, z))"
| "in_slot (At_generate r x z) = (length (answer r) < wanted r \<and> get_chunk_coords_from_offset (position r) = Some (x, z))"
| "in_slot (At_fill r x z d) = (length (answer r) < wanted r \<and> get_chunk_coords_from_offset (position r) = Some (x, z))"
| "in_slot _ = True"

lemma start_in_slot: "in_slot (start_read E off n X Z)" "in_slot (start_write E off data X Z)"
  by (simp_all add: start_read_def start_write_def Let_def split: option.split prod.split sum.split)

lemma take_piece_left:
  assumes "length (answer r) < wanted r" and "get_chunk_coords_from_offset (position r) = Some (x, z)"
  shows "turns_left (take_piece r x z b) + 2 \<le> 4 * bytes_left r" and "in_slot (take_piece r x z b)"
proof -
  have "turns_left (take_piece r x z b) + 2 \<le> 4 * bytes_left r \<and> in_slot (take_piece r x z b)"
  proof (cases "slot_piece x z (position r) (wanted r - length (answer r)) b")
    case None
    with assms(1) show ?thesis by (simp add: take_piece_def bytes_left_def)
  next
    case (Some piece)
    from slot_piece_progress [OF assms(2,1) this] show ?thesis
      by (simp add: take_piece_def bytes_left_def Some)
  qed
  then show "turns_left (take_piece r x z b) + 2 \<le> 4 * bytes_left r" "in_slot (take_piece r x z b)" by simp_all
qed

definition neighbours :: "('s, 'c) vf_env \<Rightarrow> nat" where
  "neighbours E = (2 * unat (prefetch_radius E) + 1)\<^sup>2 - 1"

lemma spawned_trigger: "length (spawned (trigger_prefetch E x z s)) = length (spawned s) + neighbours E"
  using prefetch_neighbourhood [of "prefetch_radius E" x z] by (simp add: trigger_prefetch_def neighbours_def)

lemma handler_step_left:
  assumes "in_slot h" and "handler_step E h s = Some (h', s')"
  shows "turns_left h' < turns_left h \<and> in_slot h' \<and> length (spawned s') \<le> length (spawned s) + neighbours E"
proof (cases h)
  case (At_lookup r)
  show ?thesis
  proof (cases "length (answer r) < wanted r \<and> get_chunk_coords_from_offset (position r) \<noteq> None")
    case True
    then obtain x z where at: "length (answer r) < wanted r" "get_chunk_coords_from_offset (position r) = Some (x, z)" by auto
    have sp: "spawned s' = spawned s" using assms(2) At_lookup at by (auto split: prod.splits option.splits)
    have "h' = At_load r x z \<or> (\<exists>b. h' = take_piece r x z b)"
      using assms(2) At_lookup at by (auto split: prod.splits option.splits)
    then consider "h' = At_load r x z" | b where "h' = take_piece r x z b" by blast
    then show ?thesis
    proof cases
      case 1
      with sp at At_lookup show ?thesis by simp
    next
      case (2 b)
      with sp At_lookup take_piece_left [OF at, of b] show ?thesis by simp
    qed
  next
    case False
    then show ?thesis using assms(2) At_lookup by (auto split: if_splits option.splits)
  qed
next
  case (At_load r x z)
  then have at: "length (answer r) < wanted r" "get_chunk_coords_from_offset (position r) = Some (x, z)"
    using assms(1) by simp_all
  have "h' = At_generate r x z \<or> (\<exists>d. h' = At_fill r x z d)" and "spawned s' = spawned s"
    using assms(2) At_load by (auto split: option.splits prod.splits sum.splits)
  then show ?thesis using At_load at by auto
next
  case (At_generate r x z)
  then have at: "length (answer r) < wanted r" "get_chunk_coords_from_offset (position r) = Some (x, z)"
    using assms(1) by simp_all
  obtain p q where p: "chunk_of r x z = (p, q)" by fastforce
  obtain g s1 where g: "generate_timed E p q s = (g, s1)" by fastforce
  have "h' = At_end r \<or> (\<exists>d. h' = At_fill r x z d)" and "spawned s' = spawned s"
    using assms(2) At_generate p g generate_timed_frame(2) [of E p q s] by (auto split: sum.splits)
  then show ?thesis using At_generate at by (auto simp: bytes_left_def)
next
  case (At_fill r x z d)
  then have at: "length (answer r) < wanted r" "get_chunk_coords_from_offset (position r) = Some (x, z)"
    using assms(1) by simp_all
  have sp: "length (spawned s') \<le> length (spawned s) + neighbours E"
    using assms(2) At_fill by (auto simp: Let_def spawned_trigger split: option.splits prod.splits sum.splits if_splits)
  have "h' = At_end r \<or> (\<exists>b. h' = take_piece r x z b)"
    using assms(2) At_fill by (auto simp: Let_def split: option.splits prod.splits sum.splits if_splits)
  then consider "h' = At_end r" | b where "h' = take_piece r x z b" by blast
  then show ?thesis
  proof cases
    case 1
    with sp at At_fill show ?thesis by (simp add: bytes_left_def)
  next
    case (2 b)
    with sp At_fill take_piece_left [OF at, of b] show ?thesis by simp
  qed
qed (use assms in \<open>auto simp: Let_def split: option.splits prod.splits sum.splits\<close>)

text \<open>All that is left to do; a handler's step counts for all the tasks it may spawn.\<close>

definition work :: "('s, 'c) vf_env \<Rightarrow> ('s, 'c) config \<Rightarrow> nat" where
  "work E c = (case c of (s, ts, hs) \<Rightarrow>
     8 * Suc (neighbours E) * sum_list (map (turns_left \<circ> snd) hs) + 8 * length (spawned s) + sum_list (map steps_left ts))"

lemma sum_list_update: "i < length xs \<Longrightarrow> sum_list (map f (xs[i := x])) + f (xs ! i) = sum_list (map f xs) + (f x :: nat)"
proof (induction xs arbitrary: i)
  case (Cons a xs)
  then show ?case by (cases i) auto
qed simp

lemma task_step_left: "task_step E joined t s = Some (t', s') \<Longrightarrow> steps_left t' < steps_left t \<and> spawned s' = spawned s"
proof (induction E joined t s rule: task_step.induct)
  case (4 E joined p s)
  then show ?case by (auto split: option.splits prod.splits sum.splits)
next
  case (5 E joined p s)
  obtain r s1 where g: "generate_timed E (fst p) (snd p) s = (r, s1)" by fastforce
  then have "spawned s1 = spawned s" using generate_timed_frame(2) [of E "fst p" "snd p" s] by simp
  with 5 g show ?case by (auto split: sum.splits bool.splits)
qed (auto split: if_splits option.splits)

lemma step_work:
  assumes "step E ok (s, ts, hs) (s', ts', hs')" and "\<forall>(k, h) \<in> set hs. in_slot h"
  shows "work E (s', ts', hs') < work E (s, ts, hs)" and "\<forall>(k, h) \<in> set hs'. in_slot h"
proof -
  have "work E (s', ts', hs') < work E (s, ts, hs) \<and> (\<forall>(k, h) \<in> set hs'. in_slot h)"
    using assms(1)
  proof (elim stepE)
    fix p ps
    assume "spawned s = p # ps" "s' = s\<lparr>spawned := ps\<rparr>" "ts' = ts @ [Check_cache p]" "hs' = hs"
    then show ?thesis using assms(2) by (simp add: work_def)
  next
    fix i joined t'
    assume t: "hs' = hs" "ts' = ts[i := t']" "i < length ts" "task_step E joined (ts ! i) s = Some (t', s')"
    then show ?thesis
      using task_step_left [OF t(4)] sum_list_update [OF t(3), of steps_left t'] assms(2) by (simp add: work_def)
  next
    fix i k h h'
    assume h: "ts' = ts" "hs' = hs[i := (k, h')]" "i < length hs" "hs ! i = (k, h)" "handler_step E h s = Some (h', s')"
    have "in_slot h" using assms(2) h(3,4) by (metis (no_types, lifting) nth_mem prod.case)
    note left = handler_step_left [OF this h(5)]
    have fewer: "sum_list (map (turns_left \<circ> snd) hs') + (turns_left h - turns_left h') = sum_list (map (turns_left \<circ> snd) hs)"
      using sum_list_update [OF h(3), of "turns_left \<circ> snd" "(k, h')"] left h by simp
    have "8 * Suc (neighbours E) * 1 \<le> 8 * Suc (neighbours E) * (turns_left h - turns_left h')"
      using left by (intro mult_le_mono2) (simp add: Suc_le_eq)
    then have "8 * Suc (neighbours E) * sum_list (map (turns_left \<circ> snd) hs') + 8 * Suc (neighbours E) \<le>
        8 * Suc (neighbours E) * sum_list (map (turns_left \<circ> snd) hs)"
      unfolding fewer [symmetric] distrib_left by simp
    then have "work E (s', ts', hs') < work E (s, ts, hs)"
      using left by (simp add: work_def h(1))
    moreover have "\<forall>(k, h) \<in> set hs'. in_slot h"
      using assms(2) left set_update_subset_insert [of hs i "(k, h')"] by (auto simp: h(2))
    ultimately show ?thesis by blast
  qed
  then show "work E (s', ts', hs') < work E (s, ts, hs)" "\<forall>(k, h) \<in> set hs'. in_slot h" by blast+
qed

lemma session_in_slot: "session E ok s0 past ts hs \<Longrightarrow> \<forall>(k, h) \<in> set hs. in_slot h"
proof (induction rule: session.induct)
  case (Step past ts hs s' ts' hs')
  then show ?case using step_work(2) by blast
qed (auto simp: start_in_slot)

text \<open>Executions without new requests.\<close>

inductive steps :: "('s, 'c) vf_env \<Rightarrow> nat \<Rightarrow> ('s, 'c) config \<Rightarrow> ('s, 'c) config \<Rightarrow> bool" for E where
  Rest: "steps E 0 c c"
| More: "step E anything c c1 \<Longrightarrow> steps E n c1 c2 \<Longrightarrow> steps E (Suc n) c c2"

lemma steps_bounded: "steps E n c c' \<Longrightarrow> \<forall>(k, h) \<in> set (snd (snd c)). in_slot h \<Longrightarrow> n \<le> work E c"
proof (induction rule: steps.induct)
  case (More c c1 n c2)
  obtain s ts hs s1 ts1 hs1 where c: "c = (s, ts, hs)" "c1 = (s1, ts1, hs1)" by (cases c, cases c1) auto
  note one = step_work [OF More.hyps(1) [unfolded c]]
  have "\<forall>(k, h) \<in> set hs. in_slot h" using More.prems c by simp
  with one More.IH c show ?case by simp
qed simp

lemma task_step_enabled: "task_step E joined t s = None \<longleftrightarrow> t = Finished \<or> (\<exists>p. t = Await_permit p) \<and> permits s = 0"
  by (cases t) auto

lemma stuck_finished:
  assumes "permits s + holders ts = k" and "0 < k" and "\<forall>i < length ts. task_step E True (ts ! i) s = None"
  shows "set ts \<subseteq> {Finished}"
proof -
  have none: "task_step E True t s = None" if "t \<in> set ts" for t
    using assms(3) that by (metis in_set_conv_nth)
  show ?thesis
  proof (cases "permits s = 0")
    case True
    then have "0 < holders ts" using assms(1,2) by simp
    then obtain t where "t \<in> set ts" "holds_permit t" by (auto simp: holders_def length_greater_0_conv filter_empty_conv)
    then have False using none [of t] by (auto simp: task_step_enabled)
    then show ?thesis ..
  next
    case False
    then show ?thesis using none by (auto simp: task_step_enabled)
  qed
qed

fun done_with :: "handler \<Rightarrow> bool" where
  "done_with (Replied r) = True"
| "done_with Written = True"
| "done_with _ = False"

lemma handler_step_enabled: "handler_step E h s = None \<longleftrightarrow> done_with h"
  by (cases h) auto

lemma stuck_done:
  assumes "\<And>c'. \<not> step E anything (s, ts, hs) c'" and "permits s + holders ts = k" and "0 < k"
  shows "spawned s = [] \<and> set ts \<subseteq> {Finished} \<and> (\<forall>(k, h) \<in> set hs. done_with h)"
proof (intro conjI)
  show "spawned s = []" using assms(1) by (cases "spawned s") (auto intro: Start_task)
  have "task_step E True (ts ! i) s = None" if "i < length ts" for i
    using assms(1) that by (cases "task_step E True (ts ! i) s") (auto intro: Run_task)
  then show "set ts \<subseteq> {Finished}" using stuck_finished [OF assms(2,3)] by blast
  have "done_with (snd (hs ! i))" if "i < length hs" for i
  proof (rule ccontr)
    obtain j h where h: "hs ! i = (j, h)" by fastforce
    assume "\<not> done_with (snd (hs ! i))"
    then obtain h' s' where "handler_step E h s = Some (h', s')" using handler_step_enabled [of E h s] h by auto
    then have "step E anything (s, ts, hs) (s', ts, hs[i := (j, h')])"
      using that h by (intro Run_handler) (simp_all add: anything_def)
    with assms(1) show False by blast
  qed
  then show "\<forall>(k, h) \<in> set hs. done_with h" by (auto simp: in_set_conv_nth) (metis snd_conv)
qed

subsection \<open>Properties\<close>

text \<open>The demo with a task spawned and a read on its way.\<close>

abbreviation demo_task :: "(demo_storage, lru_list) vf_state" where
  "demo_task \<equiv> (snd (demo 0))\<lparr>spawned := [(1, 0)]\<rparr>"

lemma demo_session:
  "session (fst (demo 0)) anything demo_task [demo_task, demo_task\<lparr>spawned := []\<rparr>] [Check_cache (1, 0)]
     [(1, start_read (fst (demo 0)) 8190 3 0 0)]"
proof -
  have "step (fst (demo 0)) anything (demo_task, [], []) (demo_task\<lparr>spawned := []\<rparr>, [] @ [Check_cache (1, 0)], [])"
    by (rule Start_task [where ps = "[]"]) simp
  then have "session (fst (demo 0)) anything demo_task ([demo_task] @ [demo_task\<lparr>spawned := []\<rparr>]) [Check_cache (1, 0)] []"
    using session.Step [OF session.Begin] by simp
  from session.Read_request [OF this, of 3 8190 0 0] show ?thesis by simp
qed

text \<open>C8: however the handlers and the prefetch tasks are interleaved, the permits of the semaphore
  are accounted for, so at most two tasks are past it, and never more than two chunks are generated
  in the background at a time.\<close>

theorem prefetch_limited:
  assumes "session E ok s0 past ts hs" and "permits s0 = 2"
  shows "permits (last past) + holders ts = 2 \<and> length (filter (\<lambda>t. \<exists>p. t = Generate p) ts) \<le> 2"
proof -
  have eq: "permits (last past) + holders ts = 2" using session_permits [OF assms(1)] assms(2) by simp
  have "length (filter (\<lambda>t. \<exists>p. t = Generate p) ts) \<le> holders ts"
    unfolding holders_def by (induction ts) auto
  with eq show ?thesis by simp
qed

theorem prefetch_limited_witness:
  "permits (demo_task\<lparr>spawned := []\<rparr>) + holders [Check_cache (1, 0)] = 2"
  using prefetch_limited [OF demo_session] by simp

text \<open>C9: what has been started comes to rest: from every configuration of a session, in every
  interleaving, the threads take no more steps than a bound that counts the bytes still to be read
  and the chunks still to be prefetched, those that the reads at work will ask for included; and
  when no thread can take a step, every read and write has been answered, every task spawned has
  run and none waits for a permit.\<close>

theorem session_comes_to_rest:
  assumes "session E ok s0 past ts hs" and "0 < permits s0"
  shows "(\<forall>n c. steps E n (last past, ts, hs) c \<longrightarrow>
      n \<le> 8 * (2 * unat (prefetch_radius E) + 1)\<^sup>2 * sum_list (map (turns_left \<circ> snd) hs) +
          8 * length (spawned (last past)) + sum_list (map steps_left ts)) \<and>
    ((\<forall>c. \<not> step E anything (last past, ts, hs) c) \<longrightarrow>
      spawned (last past) = [] \<and> set ts \<subseteq> {Finished} \<and> (\<forall>(k, h) \<in> set hs. done_with h))"
proof (intro conjI allI impI)
  fix n c
  assume "steps E n (last past, ts, hs) c"
  from steps_bounded [OF this] session_in_slot [OF assms(1)] have "n \<le> work E (last past, ts, hs)" by simp
  moreover have "Suc (neighbours E) = (2 * unat (prefetch_radius E) + 1)\<^sup>2" by (simp add: neighbours_def)
  ultimately show "n \<le> 8 * (2 * unat (prefetch_radius E) + 1)\<^sup>2 * sum_list (map (turns_left \<circ> snd) hs) +
      8 * length (spawned (last past)) + sum_list (map steps_left ts)"
    unfolding work_def by simp
next
  assume "\<forall>c. \<not> step E anything (last past, ts, hs) c"
  then show "spawned (last past) = []" "set ts \<subseteq> {Finished}" "\<forall>(k, h) \<in> set hs. done_with h"
    using stuck_done [OF _ session_permits [OF assms(1)] assms(2)] by blast+
qed

theorem session_comes_to_rest_witness:
  "\<nexists>c. steps (fst (demo 0)) 70 (demo_task\<lparr>spawned := []\<rparr>, [Check_cache (1, 0)], [(1, start_read (fst (demo 0)) 8190 3 0 0)]) c"
proof
  have h: "length (read_header (fst (demo 0)) 8190 3) = 2"
    by (simp add: read_header_def HEADER_BYTES_def Let_def)
  assume "\<exists>c. steps (fst (demo 0)) 70 (demo_task\<lparr>spawned := []\<rparr>, [Check_cache (1, 0)], [(1, start_read (fst (demo 0)) 8190 3 0 0)]) c"
  with session_comes_to_rest [OF demo_session] have "70 \<le>
      8 * (2 * unat (prefetch_radius (fst (demo 0))) + 1)\<^sup>2 *
        sum_list (map (turns_left \<circ> snd) [(1, start_read (fst (demo 0)) 8190 3 0 0)]) + 7"
    by fastforce
  then show False by (simp add: start_read_def bytes_left_def h)
qed

end
