(* ===== verification/Interleaving.thy ===== *)
theory Interleaving
  imports Concurrency
begin

text \<open>
  What holds of the answers when handlers and prefetch tasks interrupt each other. \<open>visible\<close> is the
  image a reader finds: what is cached, and behind it what is stored or can be generated. If the saves
  of writes are of chunks that declare their coordinates and fit their slots, and meet no other thread at
  work on the same chunk (\<open>undisturbed\<close>; \<open>Races\<close> and \<open>Eviction\<close> show what happens otherwise), every byte of an answer is the byte of the visible image at some moment
  of the read, and once no write is on its way cache and storage agree again. If no write reaches the
  storage at all, every answer is a slice of the one image the session began with.
\<close>

subsection \<open>What a reader finds\<close>

definition visible ::
    "('s, 'c) vf_env \<Rightarrow> ('c \<Rightarrow> chunk_pos \<rightharpoonup> bytes) \<Rightarrow> ('s \<Rightarrow> chunk_pos \<rightharpoonup> bytes) \<Rightarrow> ('s, 'c) vf_state \<Rightarrow> image" where
  "visible E entries cont s p =
     (case entries (cache s) p of Some b \<Rightarrow> Some b | None \<Rightarrow> blob_image E cont s p)"

lemma visible_image:
  assumes "entries (cache s) \<subseteq>\<^sub>m blob_image E cont s"
  shows "visible E entries cont s = blob_image E cont s"
proof
  fix p
  have "entries (cache s) p = Some b \<Longrightarrow> blob_image E cont s p = Some b" for b
    using assms by (metis map_le_def domI)
  then show "visible E entries cont s p = blob_image E cont s p"
    by (cases "entries (cache s) p") (simp_all add: visible_def)
qed

lemma visible_served: "served E entries cont eff sinv s \<Longrightarrow> visible E entries cont s = blob_image E cont s"
  by (rule visible_image) (rule servedD(3))

subsection \<open>Who is at work on a chunk\<close>

fun task_at :: "chunk_pos \<Rightarrow> task \<Rightarrow> bool" where
  "task_at p (Generate q) = (q = p)"
| "task_at p (Save_db q d) = (q = p)"
| "task_at p (Fill_cache q d) = (q = p)"
| "task_at p _ = False"

fun handler_at :: "chunk_pos \<Rightarrow> handler \<Rightarrow> bool" where
  "handler_at p (At_generate r x z) = (chunk_of r x z = p)"
| "handler_at p (At_fill r x z d) = (chunk_of r x z = p)"
| "handler_at p (At_refresh q b) = (q = p)"
| "handler_at p _ = False"

text \<open>Saves of chunks that declare where they belong and fit their slot, while nobody is at work on
  the same chunk; and no saves at all.\<close>

definition undisturbed :: "('s, 'c) vf_env \<Rightarrow> guard" where
  "undisturbed E h ts hs =
     (case h of
        At_save p raw \<Rightarrow>
          good_nbt E p raw \<and> (\<exists>b. compress_and_wrap_chunk (compressor E) raw = Some b \<and> length b \<le> slot_bytes) \<and>
          list_all (\<lambda>t. \<not> task_at p t) ts \<and> list_all (\<lambda>(k, h). \<not> handler_at p h) hs
      | _ \<Rightarrow> True)"

definition no_saves :: guard where
  "no_saves h ts hs = (case h of At_save p raw \<Rightarrow> False | _ \<Rightarrow> True)"

lemma no_saves_undisturbed: "no_saves h ts hs \<Longrightarrow> undisturbed E h ts hs"
  by (cases h) (simp_all add: no_saves_def undisturbed_def)

subsection \<open>What handlers know\<close>

fun handler_ok ::
    "('s, 'c) vf_env \<Rightarrow> ('s \<Rightarrow> chunk_pos \<rightharpoonup> bytes) \<Rightarrow> ('s, 'c) vf_state \<Rightarrow> handler \<Rightarrow> bool" where
  "handler_ok E cont s (At_generate r x z) =
     (served_nbt E (cont (store s)) (chunk_of r x z) = generated_nbt E (chunk_of r x z))"
| "handler_ok E cont s (At_fill r x z d) = (served_nbt E (cont (store s)) (chunk_of r x z) = Some d)"
| "handler_ok E cont s (At_refresh p b) = (blob_image E cont s p = Some b)"
| "handler_ok E cont s _ = True"

lemma take_piece_ok: "handler_ok E cont s (take_piece r x z b)"
  by (simp add: take_piece_def split: option.split)

lemma take_piece_not: "take_piece r x z b \<noteq> At_refresh p c"
  by (simp add: take_piece_def split: option.split)

lemma served_nbt_frame: "cont (store s') = cont (store s) \<Longrightarrow> handler_ok E cont s h \<Longrightarrow> handler_ok E cont s' h"
  using blob_image_cong [of cont s' s E] by (cases h) simp_all

definition is_save :: "handler \<Rightarrow> bool" where
  "is_save h \<longleftrightarrow> (\<exists>p raw. h = At_save p raw)"

text \<open>The three outcomes of a turn's beginning, and the two of its filling the cache.\<close>

lemma lookup_step:
  assumes "handler_step E (At_lookup r) s = Some (h', s')" and lru: "lru_ok (cache_ops E) entries"
  obtains (over) "h' = At_end r" "store s' = store s" "entries (cache s') = entries (cache s)"
      "wanted r \<le> length (answer r) \<or> get_chunk_coords_from_offset (position r) = None"
    | (hit) x z b where "length (answer r) < wanted r" "get_chunk_coords_from_offset (position r) = Some (x, z)"
      "entries (cache s) (chunk_of r x z) = Some b" "h' = take_piece r x z b"
      "store s' = store s" "entries (cache s') = entries (cache s)"
    | (miss) x z where "length (answer r) < wanted r" "get_chunk_coords_from_offset (position r) = Some (x, z)"
      "h' = At_load r x z" "store s' = store s" "entries (cache s') = entries (cache s)"
proof (cases "length (answer r) < wanted r \<and> get_chunk_coords_from_offset (position r) \<noteq> None")
  case False
  then show thesis using assms(1) by (intro over) (auto split: if_splits option.splits)
next
  case True
  then obtain x z where more: "length (answer r) < wanted r" "get_chunk_coords_from_offset (position r) = Some (x, z)" by auto
  obtain c where get: "lru_get (cache_ops E) (chunk_of r x z) (cache s) = (entries (cache s) (chunk_of r x z), c)"
      "entries c = entries (cache s)"
    using lru_okD(2,3) [OF lru, of "chunk_of r x z" "cache s"] by (metis prod.collapse)
  show thesis
  proof (cases "entries (cache s) (chunk_of r x z)")
    case None
    with assms(1) more get show thesis by (intro miss) auto
  next
    case (Some b)
    with assms(1) more get show thesis by (intro hit [of x z b]) auto
  qed
qed

lemma fill_step:
  assumes "handler_step E (At_fill r x z d) s = Some (h', s')"
  obtains (stop) "blob_of E (chunk_of r x z) (Some d) = None" "h' = At_end r" "store s' = store s" "cache s' = cache s"
    | (fill) b where "blob_of E (chunk_of r x z) (Some d) = Some b" "h' = take_piece r x z b" "store s' = store s"
      "cache s' = lru_put (cache_ops E) (chunk_of r x z) b (cache s)"
proof -
  obtain px pz where p: "chunk_of r x z = (px, pz)" by fastforce
  show thesis
  proof (cases "good_nbt E (px, pz) d")
    case False
    with assms show thesis by (intro stop) (auto simp: p blob_of_def simp flip: verify_good split: sum.splits)
  next
    case True
    then have ok: "verify_chunk_coords (fastnbt E) d px pz = Inr ()" by (simp add: verify_good)
    show thesis
    proof (cases "compress_and_wrap_chunk (compressor E) d")
      case None
      with assms ok True show thesis by (intro stop) (auto simp: p blob_of_def Let_def)
    next
      case (Some b)
      with assms ok True show thesis by (intro fill [of b]) (auto simp: p blob_of_def Let_def)
    qed
  qed
qed

lemma load_step:
  assumes env: "env_ok E entries cont eff sinv" and sto: "sinv (store s)"
    and step: "handler_step E (At_load r x z) s = Some (h', s')"
  shows "cont (store s') = cont (store s) \<and> sinv (store s') \<and> cache s' = cache s \<and> handler_ok E cont s' h' \<and>
    (h' = At_generate r x z \<or> (\<exists>d. h' = At_fill r x z d))"
proof -
  obtain px pz where p: "chunk_of r x z = (px, pz)" by fastforce
  show ?thesis
  proof (cases "storage E")
    case None
    then show ?thesis using step sto env_okD(4) [OF env None] by (auto simp: p served_nbt_def)
  next
    case (Some ops)
    obtain sd d where load: "load_chunk ops px pz (store s) = (sd, d)" by fastforce
    have s': "store s' = d" "cache s' = cache s" using step Some load by (auto simp: p)
    have "handler_ok E cont s' h' \<and> (h' = At_generate r x z \<or> (\<exists>d. h' = At_fill r x z d))"
      using step Some load storage_load [OF env Some sto load] s'(1)
      by (auto simp: p served_nbt_def simp flip: verify_good split: option.splits sum.splits)
    then show ?thesis using storage_load [OF env Some sto load] s' by simp
  qed
qed

lemma generate_step:
  assumes env: "env_ok E entries cont eff sinv" and step: "handler_step E (At_generate r x z) s = Some (h', s')"
  shows "store s' = store s \<and> cache s' = cache s \<and>
    h' = (case generated_nbt E (chunk_of r x z) of None \<Rightarrow> At_end r | Some d \<Rightarrow> At_fill r x z d)"
proof -
  obtain px pz where p: "chunk_of r x z = (px, pz)" by fastforce
  obtain g s1 where g: "generate_timed E px pz s = (g, s1)" by fastforce
  then show ?thesis
    using step generate_timed_result [OF env g] by (auto simp: p generated_nbt_def split: sum.splits)
qed

text \<open>What a step of a handler does, other than a save.\<close>

lemma handler_step_effect:
  assumes env: "env_ok E entries cont eff sinv" and sto: "sinv (store s)" and ok: "handler_ok E cont s h"
    and step: "handler_step E h s = Some (h', s')" and "\<not> is_save h"
  shows "cont (store s') = cont (store s) \<and> sinv (store s') \<and> handler_ok E cont s' h' \<and> \<not> (\<exists>p b. h' = At_refresh p b) \<and>
    (entries (cache s') = entries (cache s) \<or>
     (\<exists>p b. cache s' = lru_put (cache_ops E) p b (cache s) \<and> blob_image E cont s p = Some b))"
proof (cases h)
  case (At_lookup r)
  with step have "handler_step E (At_lookup r) s = Some (h', s')" by simp
  then show ?thesis
    by (rule lookup_step [OF _ env_okD(1) [OF env]]) (simp_all add: sto take_piece_ok take_piece_not)
next
  case (At_load r x z)
  with load_step [OF env sto, of r x z h' s'] step show ?thesis by auto
next
  case (At_generate r x z)
  with generate_step [OF env, of r x z s h' s'] step ok sto show ?thesis by (auto split: option.split)
next
  case (At_fill r x z d)
  with step have "handler_step E (At_fill r x z d) s = Some (h', s')" by simp
  then show ?thesis
  proof (cases rule: fill_step)
    case stop
    then show ?thesis using sto by simp
  next
    case (fill b)
    then have "blob_image E cont s (chunk_of r x z) = Some b" using ok At_fill by (simp add: blob_image_def)
    with fill sto take_piece_ok take_piece_not show ?thesis by metis
  qed
next
  case (At_refresh p b)
  then have "blob_image E cont s p = Some b" "h' = Written" "store s' = store s"
    "cache s' = lru_put (cache_ops E) p b (cache s)" using step ok by auto
  with sto show ?thesis by (intro conjI disjI2 exI [of _ p] exI [of _ b]) simp_all
qed (use step sto \<open>\<not> is_save h\<close> in \<open>auto simp: Let_def is_save_def\<close>)

text \<open>A save that succeeds changes the image as the write says and leaves the update of the cache.\<close>

lemma save_effect:
  assumes env: "env_ok E entries cont eff sinv" and sto: "sinv (store s)" and verb: "saves_verbatim E eff sinv"
    and good: "good_nbt E p raw" and blob: "compress_and_wrap_chunk (compressor E) raw = Some b"
    and step: "handler_step E (At_save p raw) s = Some (h', s')"
  shows "h' = At_refresh p b \<and> sinv (store s') \<and> cache s' = cache s \<and>
    cont (store s') = (cont (store s))(p \<mapsto> raw) \<and> blob_image E cont s' = (blob_image E cont s)(p \<mapsto> b)"
proof -
  obtain ops where st: "storage E = Some ops"
    and saves: "\<And>s x z d. sinv s \<Longrightarrow> fst (save_chunk ops x z d s) = Inr ()" and eff: "eff raw = Some (Some raw)"
    using verb by (auto simp: saves_verbatim_def split: option.splits)
  note cs = env_okD(5) [OF env st]
  obtain d where save: "save_chunk ops (fst p) (snd p) raw (store s) = (Inr (), d)"
    using saves [OF sto, of "fst p" "snd p" raw] by (metis prod.collapse)
  have s': "h' = At_refresh p b" "store s' = d" "cache s' = cache s"
    using step st save blob by auto
  have "cont d = (cont (store s))(p \<mapsto> raw)"
    using chunk_storage.save_ok [OF cs sto save] by (simp add: apply_effect_def eff)
  moreover have "sinv d" using chunk_storage.invar_save [OF cs sto, of "fst p" "snd p" raw] save by simp
  moreover have "blob_image E cont s' = (blob_image E cont s)(p \<mapsto> b)"
    using good blob by (auto simp: fun_eq_iff blob_image_def served_nbt_def blob_of_def s' calculation(1))
  ultimately show ?thesis using s' by simp
qed

subsection \<open>The invariant of a session\<close>

text \<open>A cached blob is that of the image, unless a write of its chunk is about to update it; it fits
  its slot in either case. Tasks and handlers know what they have to know.\<close>

definition shared ::
    "('s, 'c) vf_env \<Rightarrow> ('c \<Rightarrow> chunk_pos \<rightharpoonup> bytes) \<Rightarrow> ('s \<Rightarrow> chunk_pos \<rightharpoonup> bytes) \<Rightarrow>
     (bytes \<Rightarrow> bytes option option) \<Rightarrow> ('s \<Rightarrow> bool) \<Rightarrow> ('s, 'c) config \<Rightarrow> bool" where
  "shared E entries cont eff sinv c = (case c of (s, ts, hs) \<Rightarrow>
     env_ok E entries cont eff sinv \<and> sinv (store s) \<and>
     (\<forall>p b. blob_image E cont s p = Some b \<longrightarrow> length b \<le> slot_bytes) \<and>
     (\<forall>p b. entries (cache s) p = Some b \<longrightarrow> length b \<le> slot_bytes \<and>
        (blob_image E cont s p = Some b \<or> (\<exists>k b'. (k, At_refresh p b') \<in> set hs))) \<and>
     (\<forall>t \<in> set ts. task_ok E cont s t) \<and> (\<forall>(k, h) \<in> set hs. handler_ok E cont s h))"

lemma sharedD:
  assumes "shared E entries cont eff sinv (s, ts, hs)"
  shows "env_ok E entries cont eff sinv" and "sinv (store s)"
    and "blob_image E cont s p = Some b \<Longrightarrow> length b \<le> slot_bytes"
    and "entries (cache s) p = Some b \<Longrightarrow> length b \<le> slot_bytes"
    and "entries (cache s) p = Some b \<Longrightarrow> blob_image E cont s p = Some b \<or> (\<exists>k b'. (k, At_refresh p b') \<in> set hs)"
    and "t \<in> set ts \<Longrightarrow> task_ok E cont s t" and "(k, h) \<in> set hs \<Longrightarrow> handler_ok E cont s h"
  using assms unfolding shared_def by blast+

lemma sharedI:
  assumes "env_ok E entries cont eff sinv" and "sinv (store s)"
    and "\<And>p b. blob_image E cont s p = Some b \<Longrightarrow> length b \<le> slot_bytes"
    and "\<And>p b. entries (cache s) p = Some b \<Longrightarrow> length b \<le> slot_bytes \<and>
      (blob_image E cont s p = Some b \<or> (\<exists>k b'. (k, At_refresh p b') \<in> set hs))"
    and "\<And>t. t \<in> set ts \<Longrightarrow> task_ok E cont s t" and "\<And>k h. (k, h) \<in> set hs \<Longrightarrow> handler_ok E cont s h"
  shows "shared E entries cont eff sinv (s, ts, hs)"
  using assms unfolding shared_def by blast

lemma nth_mem_update: "m < length xs \<Longrightarrow> m \<noteq> i \<Longrightarrow> xs ! m \<in> set (xs[i := y])"
  by (metis length_list_update nth_list_update_neq nth_mem)

text \<open>What is cached can be had: a stale blob is of a chunk that is being written.\<close>

lemma cached_available:
  assumes "shared E entries cont eff sinv (s, ts, hs)" and "entries (cache s) p = Some b"
  shows "blob_image E cont s p \<noteq> None"
  using sharedD(5) [OF assms] sharedD(7) [OF assms(1)] by fastforce

lemma shared_served:
  assumes "shared E entries cont eff sinv (s, ts, hs)" and "\<not> (\<exists>k p b. (k, At_refresh p b) \<in> set hs)"
  shows "served E entries cont eff sinv s"
proof -
  have "entries (cache s) \<subseteq>\<^sub>m blob_image E cont s"
  proof (unfold map_le_def, rule ballI)
    fix p
    assume "p \<in> dom (entries (cache s))"
    then obtain b where b: "entries (cache s) p = Some b" by blast
    with sharedD(5) [OF assms(1) b] assms(2) have "blob_image E cont s p = Some b" by blast
    with b show "entries (cache s) p = blob_image E cont s p" by simp
  qed
  then show ?thesis
    using sharedD(1-3) [OF assms(1)] unfolding served_def by blast
qed

lemma served_shared: "served E entries cont eff sinv s \<Longrightarrow> shared E entries cont eff sinv (s, [], [])"
proof -
  assume inv: "served E entries cont eff sinv s"
  have "blob_image E cont s p = Some b \<and> length b \<le> slot_bytes" if "entries (cache s) p = Some b" for p b
  proof -
    have "blob_image E cont s p = Some b" using servedD(3) [OF inv] that by (metis map_le_def domI)
    with servedD(4) [OF inv this] show ?thesis by blast
  qed
  with servedD [OF inv] show ?thesis by (intro sharedI) simp_all
qed

text \<open>A new handler knows nothing yet.\<close>

lemma start_ok: "handler_ok E cont s (start_read E' off n X Z)" "handler_ok E cont s (start_write E' off data X Z)"
  by (simp_all add: start_read_def start_write_def Let_def split: option.split prod.split sum.split)

lemma shared_request:
  "shared E entries cont eff sinv (s, ts, hs) \<Longrightarrow> handler_ok E cont s h \<Longrightarrow>
     shared E entries cont eff sinv (s, ts, hs @ [(k, h)])"
  by (rule sharedI) (auto dest: sharedD)

text \<open>The cache after a step that puts at most one blob of the image.\<close>

lemma cached_after:
  assumes "lru_ok C entries" and "entries (lru_put C p b c) q = Some b'"
  shows "(q = p \<and> b' = b) \<or> entries c q = Some b'"
proof -
  have "((entries c)(p \<mapsto> b)) q = Some b'"
    using lru_okD(5) [OF assms(1), of p b c] assms(2) by (metis map_le_def domI)
  then show ?thesis by (auto split: if_splits)
qed

lemma served_nbt_generated:
  assumes "honest_generator E eff" and "generated_nbt E p = Some d" and "m p \<in> {None, Some d}"
  shows "served_nbt E (m(p \<mapsto> d)) = served_nbt E m"
  using assms by (auto simp: fun_eq_iff served_nbt_def honest_generator_def)

lemma handler_ok_image:
  assumes "served_nbt E (cont (store s')) = served_nbt E (cont (store s))"
  shows "handler_ok E cont s' h = handler_ok E cont s h"
  using assms by (cases h) (simp_all add: blob_image_def)

lemma shared_start_task:
  assumes sh: "shared E entries cont eff sinv (s, ts, hs)"
  shows "shared E entries cont eff sinv (s\<lparr>spawned := ps\<rparr>, ts @ [Check_cache p], hs)"
proof -
  let ?s = "s\<lparr>spawned := ps\<rparr>"
  have img: "blob_image E cont ?s = blob_image E cont s" by (rule blob_image_cong) simp
  have "task_ok E cont ?s t = task_ok E cont s t" for t by (cases t) (simp_all add: task_ok_def)
  moreover have "handler_ok E cont ?s h = handler_ok E cont s h" for h by (rule handler_ok_image) simp
  moreover have "task_ok E cont ?s (Check_cache p)" by (simp add: task_ok_def)
  ultimately show ?thesis
    using sh unfolding shared_def prod.case img by auto
qed

lemma shared_run_task:
  assumes sh: "shared E entries cont eff sinv (s, ts, hs)" and hon: "honest_generator E eff"
    and i: "i < length ts" and step: "task_step E joined (ts ! i) s = Some (t', s')"
  shows "shared E entries cont eff sinv (s', ts[i := t'], hs) \<and> blob_image E cont s' = blob_image E cont s"
proof -
  note env = sharedD(1) [OF sh]
  note lru = env_okD(1) [OF env]
  have ok: "task_ok E cont s (ts ! i)" using sharedD(6) [OF sh] i by simp
  note one = task_step_effect [OF env sharedD(2) [OF sh] hon ok step]
  then have img: "blob_image E cont s' = blob_image E cont s" by blast
  have grows: "cont (store s') = cont (store s) \<or>
      (\<exists>p d. generated_nbt E p = Some d \<and> cont (store s) p \<in> {None, Some d} \<and> cont (store s') = (cont (store s))(p \<mapsto> d))"
  proof (cases "cont (store s') = cont (store s)")
    case False
    with one obtain p d where save: "ts ! i = Save_db p d" and cont: "cont (store s') = (cont (store s))(p \<mapsto> d)" by blast
    from ok save have "generated_nbt E p = Some d" "cont (store s) p \<in> {None, Some d}" by (simp_all add: task_ok_def)
    with cont show ?thesis by blast
  qed simp
  then have nbt: "served_nbt E (cont (store s')) = served_nbt E (cont (store s))"
    using served_nbt_generated [OF hon] by metis
  have "task_ok E cont s' u" if "u \<in> set ts" for u
    using sharedD(6) [OF sh that] grows by (cases u) (auto simp: task_ok_def split: if_splits)
  then have tasks: "\<forall>u \<in> set (ts[i := t']). task_ok E cont s' u"
    using one set_update_subset_insert [of ts i t'] by blast
  have "cache s' = cache s \<or> (\<exists>p b. cache s' = lru_put (cache_ops E) p b (cache s) \<and> blob_image E cont s p = Some b)"
    using one by (simp add: puts_image_def)
  then have cached: "blob_image E cont s p = Some b \<or> entries (cache s) p = Some b" if "entries (cache s') p = Some b" for p b
    using cached_after [OF lru] that by metis
  have "length b \<le> slot_bytes \<and> (blob_image E cont s p = Some b \<or> (\<exists>k b'. (k, At_refresh p b') \<in> set hs))"
    if "entries (cache s') p = Some b" for p b
    using cached [OF that] sharedD(3-5) [OF sh] by blast
  then have "shared E entries cont eff sinv (s', ts[i := t'], hs)"
    using one tasks env sharedD(3,7) [OF sh] unfolding shared_def prod.case img
    by (auto simp: handler_ok_image [of E cont s' s, OF nbt])
  with img show ?thesis by blast
qed

text \<open>The handlers, but for their saves.\<close>

lemma shared_run_handler:
  assumes sh: "shared E entries cont eff sinv (s, ts, hs)" and i: "i < length hs" "hs ! i = (k, h)"
    and step: "handler_step E h s = Some (h', s')" and "\<not> is_save h"
  shows "shared E entries cont eff sinv (s', ts, hs[i := (k, h')]) \<and> blob_image E cont s' = blob_image E cont s"
proof -
  note env = sharedD(1) [OF sh]
  note lru = env_okD(1) [OF env]
  have mem: "(k, h) \<in> set hs" using i nth_mem by metis
  note one = handler_step_effect [OF env sharedD(2) [OF sh] sharedD(7) [OF sh mem] step assms(5)]
  then have img: "blob_image E cont s' = blob_image E cont s" by (blast intro: blob_image_cong)
  have nbt: "served_nbt E (cont (store s')) = served_nbt E (cont (store s))" using one by simp
  have cached: "length b \<le> slot_bytes \<and> (blob_image E cont s p = Some b \<or> (\<exists>j b'. (j, At_refresh p b') \<in> set (hs[i := (k, h')])))"
    if hit: "entries (cache s') p = Some b" for p b
  proof (cases "blob_image E cont s p = Some b")
    case True
    then show ?thesis using sharedD(3) [OF sh] by blast
  next
    case False
    then have old: "entries (cache s) p = Some b"
      using one hit cached_after [OF lru] by metis
    then obtain j b' where j: "(j, At_refresh p b') \<in> set hs" using False sharedD(5) [OF sh old] by blast
    have "(j, At_refresh p b') \<noteq> (k, h)"
    proof
      assume "(j, At_refresh p b') = (k, h)"
      then have "h = At_refresh p b'" by simp
      then have "entries (cache s') p = Some b'" "blob_image E cont s p = Some b'"
        using step lru_okD(4) [OF lru, of p b' "cache s"] sharedD(7) [OF sh mem] by auto
      with hit False show False by simp
    qed
    then have "(j, At_refresh p b') \<in> set (hs[i := (k, h')])"
      using j i by (metis in_set_conv_nth length_list_update nth_list_update_neq)
    then show ?thesis using sharedD(4) [OF sh old] by blast
  qed
  have "task_ok E cont s' t = task_ok E cont s t" for t
    using one by (cases t) (simp_all add: task_ok_def)
  moreover have "\<forall>(j, g) \<in> set (hs[i := (k, h')]). handler_ok E cont s' g"
    using one sharedD(7) [OF sh] set_update_subset_insert [of hs i "(k, h')"]
    by (auto simp: handler_ok_image [of E cont s' s, OF nbt])
  ultimately have "shared E entries cont eff sinv (s', ts, hs[i := (k, h')])"
    using one cached env sharedD(3,6) [OF sh] unfolding shared_def prod.case img by blast
  with img show ?thesis by blast
qed

text \<open>An undisturbed save.\<close>

lemma shared_save:
  assumes sh: "shared E entries cont eff sinv (s, ts, hs)" and verb: "saves_verbatim E eff sinv"
    and i: "i < length hs" "hs ! i = (k, At_save p raw)" and ok: "undisturbed E (At_save p raw) ts hs"
    and step: "handler_step E (At_save p raw) s = Some (h', s')"
  shows "shared E entries cont eff sinv (s', ts, hs[i := (k, h')])"
proof -
  note env = sharedD(1) [OF sh]
  obtain b where good: "good_nbt E p raw" and blob: "compress_and_wrap_chunk (compressor E) raw = Some b"
    and fits: "length b \<le> slot_bytes"
    using ok by (auto simp: undisturbed_def)
  have free_t: "\<not> task_at p t" if "t \<in> set ts" for t
    using ok that by (auto simp: undisturbed_def list_all_iff)
  have free_h: "\<not> handler_at p g" if "(j, g) \<in> set hs" for j g
    using ok that by (auto simp: undisturbed_def list_all_iff)
  note one = save_effect [OF env sharedD(2) [OF sh] verb good blob step]
  have cont: "cont (store s') = (cont (store s))(p \<mapsto> raw)" and img: "blob_image E cont s' = (blob_image E cont s)(p \<mapsto> b)"
    using one by blast+
  have elsewhere: "served_nbt E (cont (store s')) q = served_nbt E (cont (store s)) q" if "q \<noteq> p" for q
    using that by (simp add: served_nbt_def cont)
  have tasks: "task_ok E cont s' t" if "t \<in> set ts" for t
    using sharedD(6) [OF sh that] free_t [OF that] by (cases t) (auto simp: task_ok_def cont)
  have "handler_ok E cont s' g" if "(j, g) \<in> set hs" for j g
    using sharedD(7) [OF sh that] free_h [OF that] by (cases g) (auto simp: elsewhere img)
  then have handlers: "\<forall>(j, g) \<in> set (hs[i := (k, h')]). handler_ok E cont s' g"
    using one set_update_subset_insert [of hs i "(k, h')"] by (auto simp: img)
  have mem: "(k, h') \<in> set (hs[i := (k, h')])" using i(1) by (rule set_update_memI)
  have pending: "(j, At_refresh q c) \<in> set (hs[i := (k, h')])" if old: "(j, At_refresh q c) \<in> set hs" for j q c
  proof -
    obtain m where m: "m < length hs" "hs ! m = (j, At_refresh q c)"
      using old unfolding in_set_conv_nth by blast
    have "m \<noteq> i" using m(2) i(2) by (cases "m = i") simp_all
    with nth_mem_update [OF m(1) this, of "(k, h')"] m(2) show ?thesis by simp
  qed
  have cached: "length c \<le> slot_bytes \<and>
      (blob_image E cont s' q = Some c \<or> (\<exists>j b'. (j, At_refresh q b') \<in> set (hs[i := (k, h')])))"
    if hit: "entries (cache s') q = Some c" for q c
  proof -
    have old: "entries (cache s) q = Some c" using hit one by simp
    show ?thesis
    proof (cases "q = p")
      case True
      then show ?thesis using sharedD(4) [OF sh old] mem one by blast
    next
      case False
      then have "blob_image E cont s' q = blob_image E cont s q" by (simp add: img)
      then show ?thesis using sharedD(4,5) [OF sh old] pending by metis
    qed
  qed
  have "length c \<le> slot_bytes" if "blob_image E cont s' q = Some c" for q c
    using that fits sharedD(3) [OF sh, of q c] by (auto simp: img split: if_splits)
  then show ?thesis
    using one env tasks handlers cached unfolding shared_def prod.case by blast
qed

text \<open>The two kinds of sessions.\<close>

lemma session_nonempty: "session E ok s0 past ts hs \<Longrightarrow> past \<noteq> []"
  by (induction rule: session.induct) simp_all

lemma session_shared:
  assumes run: "session E (undisturbed E) s0 past ts hs" and "served E entries cont eff sinv s0"
    and hon: "honest_generator E eff" and verb: "saves_verbatim E eff sinv"
  shows "shared E entries cont eff sinv (last past, ts, hs)"
  using run
proof (induction rule: session.induct)
  case Begin
  then show ?case using served_shared [OF assms(2)] by simp
next
  case (Step past ts hs s' ts' hs')
  have "shared E entries cont eff sinv (s', ts', hs')"
    using Step.hyps(2)
  proof (elim stepE)
    fix p ps
    assume "s' = last past\<lparr>spawned := ps\<rparr>" "ts' = ts @ [Check_cache p]" "hs' = hs"
    then show ?thesis using shared_start_task [OF Step.IH] by simp
  next
    fix i joined t'
    assume "hs' = hs" "ts' = ts[i := t']" "i < length ts" "task_step E joined (ts ! i) (last past) = Some (t', s')"
    then show ?thesis using shared_run_task [OF Step.IH hon] by blast
  next
    fix i k h h'
    assume h: "ts' = ts" "hs' = hs[i := (k, h')]" "i < length hs" "hs ! i = (k, h)" "undisturbed E h ts hs"
      "handler_step E h (last past) = Some (h', s')"
    show ?thesis
    proof (cases "is_save h")
      case True
      then obtain p raw where "h = At_save p raw" unfolding is_save_def by blast
      then show ?thesis using shared_save [OF Step.IH verb h(3), of k p raw h' s'] h by simp
    next
      case False
      then show ?thesis using shared_run_handler [OF Step.IH h(3,4,6)] h(1,2) by blast
    qed
  qed
  then show ?case by simp
next
  case (Read_request past ts hs n off X Z)
  then show ?case by (intro shared_request start_ok)
next
  case (Write_request past ts hs off data X Z)
  then show ?case by (intro shared_request start_ok)
qed

subsection \<open>Answers\<close>

text \<open>The bytes so far are bytes of the visible image, each at some moment since the request came in.\<close>

definition seen ::
    "('s, 'c) vf_env \<Rightarrow> ('c \<Rightarrow> chunk_pos \<rightharpoonup> bytes) \<Rightarrow> ('s \<Rightarrow> chunk_pos \<rightharpoonup> bytes) \<Rightarrow>
     ('s, 'c) vf_state list \<Rightarrow> reader \<Rightarrow> nat \<Rightarrow> bool" where
  "seen E entries cont during r m \<longleftrightarrow>
     m \<le> length (answer r) \<and>
     (\<forall>i < m. \<exists>s \<in> set during.
        file_byte (visible E entries cont s) (of_x r) (of_z r) (at_offset r + of_nat i) = Some (answer r ! i))"

definition missing ::
    "('s, 'c) vf_env \<Rightarrow> ('c \<Rightarrow> chunk_pos \<rightharpoonup> bytes) \<Rightarrow> ('s \<Rightarrow> chunk_pos \<rightharpoonup> bytes) \<Rightarrow>
     ('s, 'c) vf_state list \<Rightarrow> reader \<Rightarrow> nat \<Rightarrow> bool" where
  "missing E entries cont during r m \<longleftrightarrow>
     (\<exists>s \<in> set during. file_byte (visible E entries cont s) (of_x r) (of_z r) (at_offset r + of_nat m) = None)"

text \<open>The part of the answer before the loop is the header's; from then on the reader is behind the
  header, or has all it wants.\<close>

definition on_way ::
    "('s, 'c) vf_env \<Rightarrow> ('c \<Rightarrow> chunk_pos \<rightharpoonup> bytes) \<Rightarrow> ('s \<Rightarrow> chunk_pos \<rightharpoonup> bytes) \<Rightarrow>
     ('s, 'c) vf_state list \<Rightarrow> reader \<Rightarrow> bool" where
  "on_way E entries cont during r \<longleftrightarrow>
     length (answer r) \<le> wanted r \<and> seen E entries cont during r (length (answer r)) \<and>
     (length (answer r) < wanted r \<longrightarrow> header_len \<le> unat (position r))"

definition answered ::
    "('s, 'c) vf_env \<Rightarrow> ('c \<Rightarrow> chunk_pos \<rightharpoonup> bytes) \<Rightarrow> ('s \<Rightarrow> chunk_pos \<rightharpoonup> bytes) \<Rightarrow>
     ('s, 'c) vf_state list \<Rightarrow> reader \<Rightarrow> bool" where
  "answered E entries cont during r \<longleftrightarrow>
     (\<exists>m \<le> wanted r. seen E entries cont during r m \<and>
        answer r = take m (answer r) @ zeros (wanted r - m) \<and> (m = wanted r \<or> missing E entries cont during r m))"

fun reader_ok ::
    "('s, 'c) vf_env \<Rightarrow> ('c \<Rightarrow> chunk_pos \<rightharpoonup> bytes) \<Rightarrow> ('s \<Rightarrow> chunk_pos \<rightharpoonup> bytes) \<Rightarrow>
     ('s, 'c) vf_state list \<Rightarrow> handler \<Rightarrow> bool" where
  "reader_ok E entries cont during (At_lookup r) = on_way E entries cont during r"
| "reader_ok E entries cont during (At_load r x z) = on_way E entries cont during r"
| "reader_ok E entries cont during (At_generate r x z) = on_way E entries cont during r"
| "reader_ok E entries cont during (At_fill r x z d) = on_way E entries cont during r"
| "reader_ok E entries cont during (At_end r) =
     (length (answer r) \<le> wanted r \<and> seen E entries cont during r (length (answer r)) \<and>
      (length (answer r) = wanted r \<or> missing E entries cont during r (length (answer r))))"
| "reader_ok E entries cont during (Replied r) = answered E entries cont during r"
| "reader_ok E entries cont during _ = True"

lemma seen_mono: "seen E entries cont during r m \<Longrightarrow> set during \<subseteq> set during' \<Longrightarrow> seen E entries cont during' r m"
  unfolding seen_def by (meson subsetD)

lemma missing_mono: "missing E entries cont during r m \<Longrightarrow> set during \<subseteq> set during' \<Longrightarrow> missing E entries cont during' r m"
  unfolding missing_def by (meson subsetD)

lemma reader_ok_mono:
  assumes "reader_ok E entries cont during h" and "set during \<subseteq> set during'"
  shows "reader_ok E entries cont during' h"
proof -
  note mono = seen_mono [OF _ assms(2)] missing_mono [OF _ assms(2)]
  show ?thesis
  proof (cases h)
    case (Replied r)
    with assms(1) obtain m where "m \<le> wanted r" "seen E entries cont during r m"
      "answer r = take m (answer r) @ zeros (wanted r - m)" "m = wanted r \<or> missing E entries cont during r m"
      by (auto simp: answered_def)
    with mono have "answered E entries cont during' r" unfolding answered_def by blast
    with Replied show ?thesis by simp
  qed (use assms(1) mono in \<open>auto simp: on_way_def\<close>)
qed

text \<open>A blob that is in the visible image at the end of the turn.\<close>

lemma take_piece_seen:
  assumes way: "on_way E entries cont during r" and more: "length (answer r) < wanted r"
    and at: "get_chunk_coords_from_offset (position r) = Some (x, z)"
    and s: "s \<in> set during" and img: "visible E entries cont s (chunk_of r x z) = Some b" and fits: "length b \<le> slot_bytes"
  shows "reader_ok E entries cont during (take_piece r x z b)"
proof -
  let ?n = "wanted r - length (answer r)" and ?img = "visible E entries cont s"
  obtain p where p: "slot_piece x z (position r) ?n b = Some p" and len: "length p \<le> ?n"
    and own: "\<And>i. i < length p \<Longrightarrow> get_chunk_coords_from_offset (position r + of_nat i) = Some (x, z)"
    and val: "\<And>i. i < length p \<Longrightarrow> p ! i = slot_byte b (unat (position r + of_nat i) - unat (get_chunk_file_offset x z))"
    using slot_piece_image [OF at fits, where needed = ?n] by blast
  have pos: "0 < length p" using slot_piece_bounds [OF at _ p] more by simp
  let ?r = "r\<lparr>answer := answer r @ p\<rparr>"
  have byte: "file_byte ?img (of_x r) (of_z r) (position r + of_nat i) = Some (p ! i)" if "i < length p" for i
    using coords_SomeD [OF own [OF that]] slot_in_file [of x z] val [OF that] own [OF that] img
    by (simp add: file_byte_def data_byte_def chunk_of_def del: of_nat_add)
  have "seen E entries cont during ?r (length (answer ?r))"
    unfolding seen_def
  proof (intro conjI allI impI)
    fix i
    assume i: "i < length (answer ?r)"
    show "\<exists>s \<in> set during. file_byte (visible E entries cont s) (of_x ?r) (of_z ?r) (at_offset ?r + of_nat i) = Some (answer ?r ! i)"
    proof (cases "i < length (answer r)")
      case True
      then show ?thesis using way by (simp add: on_way_def seen_def nth_append)
    next
      case False
      then obtain j where j: "i = length (answer r) + j" using le_Suc_ex [of "length (answer r)" i] by auto
      then have "file_byte ?img (of_x r) (of_z r) (at_offset r + of_nat i) = Some (answer ?r ! i)"
        using byte [of j] i by (simp add: position_def add.assoc)
      then show ?thesis using s by auto
    qed
  qed simp
  moreover have "header_len \<le> unat (position ?r)"
  proof -
    obtain l where l: "length p = Suc l" using pos by (cases "length p") simp_all
    let ?q = "position r + of_nat l"
    have q: "header_len \<le> unat ?q" "unat ?q < file_len"
      using coords_SomeD [OF own [of l]] slot_in_file [of x z] by (simp_all add: l del: of_nat_add)
    have "position ?r = ?q + of_nat 1" by (simp add: position_def l add.assoc)
    then have "unat (position ?r) = unat ?q + 1"
      using unat_add_in_file [of ?q 1] q(2) by (simp del: of_nat_1)
    then show ?thesis using q(1) by simp
  qed
  ultimately show ?thesis
    using len more by (simp add: take_piece_def p on_way_def)
qed

text \<open>One step of a reader.\<close>

lemma reader_stop:
  assumes "on_way E entries cont during r" and "length (answer r) < wanted r" and "s \<in> set during"
    and "\<And>x z. get_chunk_coords_from_offset (position r) = Some (x, z) \<Longrightarrow> visible E entries cont s (chunk_of r x z) = None"
  shows "reader_ok E entries cont during (At_end r)"
proof -
  have "header_len \<le> unat (position r)" using assms(1,2) by (simp add: on_way_def)
  then have "file_byte (visible E entries cont s) (of_x r) (of_z r) (position r) = None"
    using assms(4) by (auto simp: file_byte_def data_byte_def chunk_of_def split: option.split)
  then have "missing E entries cont during r (length (answer r))"
    unfolding missing_def by (intro bexI [OF _ assms(3)]) (simp flip: position_def)
  then show ?thesis using assms(1) by (simp add: on_way_def)
qed

lemma reader_replies:
  assumes ok: "reader_ok E entries cont during (At_end r)" and step: "handler_step E (At_end r) s = Some (h', s')"
  shows "reader_ok E entries cont during h'"
proof -
  let ?r = "r\<lparr>answer := answer r @ zeros (wanted r - length (answer r))\<rparr>"
  have fin: "length (answer r) \<le> wanted r" "seen E entries cont during r (length (answer r))"
    "length (answer r) = wanted r \<or> missing E entries cont during r (length (answer r))" using ok by simp_all
  have "seen E entries cont during ?r (length (answer r))" using fin(2) by (auto simp: seen_def nth_append)
  moreover have "missing E entries cont during ?r m = missing E entries cont during r m" for m by (simp add: missing_def)
  ultimately have "answered E entries cont during ?r"
    using fin unfolding answered_def by (intro exI [of _ "length (answer r)"]) simp
  moreover have "h' = Replied ?r" using step fin(1) by (auto simp: Let_def)
  ultimately show ?thesis by simp
qed

lemma reader_step:
  assumes sh: "shared E entries cont eff sinv (s, ts, hs)" and h: "(k, h) \<in> set hs" "in_slot h"
    and ok: "reader_ok E entries cont during h" and s: "s \<in> set during"
    and step: "handler_step E h s = Some (h', s')"
  shows "reader_ok E entries cont (during @ [s']) h'"
proof -
  let ?during = "during @ [s']"
  have sub: "set during \<subseteq> set ?during" and s': "s' \<in> set ?during" and s2: "s \<in> set ?during" using s by auto
  note env = sharedD(1) [OF sh]
  note lru = env_okD(1) [OF env]
  note ok' = reader_ok_mono [OF ok sub]
  have none: "visible E entries cont s p = None" if "blob_image E cont s p = None" for p
    using cached_available [OF sh, of p] that by (cases "entries (cache s) p") (auto simp: visible_def)
  show ?thesis
  proof (cases h)
    case (At_lookup r)
    then have way: "on_way E entries cont ?during r" using ok' by simp
    from At_lookup step have "handler_step E (At_lookup r) s = Some (h', s')" by simp
    then show ?thesis
    proof (rule lookup_step [OF _ lru])
      assume "h' = At_end r" and over: "wanted r \<le> length (answer r) \<or> get_chunk_coords_from_offset (position r) = None"
      then show ?thesis
        using way reader_stop [OF way _ s2] by (cases "length (answer r) < wanted r") (auto simp: on_way_def)
    next
      fix x z b
      assume "length (answer r) < wanted r" "get_chunk_coords_from_offset (position r) = Some (x, z)"
        "entries (cache s) (chunk_of r x z) = Some b" "h' = take_piece r x z b"
      then show ?thesis using take_piece_seen [OF way _ _ s2] sharedD(4) [OF sh] by (simp add: visible_def)
    qed (simp add: way)
  next
    case (At_load r x z)
    with load_step [OF env sharedD(2) [OF sh], of r x z h' s'] step ok' show ?thesis by auto
  next
    case (At_generate r x z)
    then have way: "on_way E entries cont ?during r" and more: "length (answer r) < wanted r"
      "get_chunk_coords_from_offset (position r) = Some (x, z)"
      and nbt: "served_nbt E (cont (store s)) (chunk_of r x z) = generated_nbt E (chunk_of r x z)"
      using ok' h(2) sharedD(7) [OF sh h(1)] by simp_all
    have "reader_ok E entries cont ?during (At_end r)" if "generated_nbt E (chunk_of r x z) = None"
      using that nbt more by (intro reader_stop [OF way more(1) s2] none) (simp add: blob_image_def blob_of_def)
    then show ?thesis
      using generate_step [OF env, of r x z s h' s'] step At_generate way by (auto split: option.splits)
  next
    case (At_fill r x z d)
    then have way: "on_way E entries cont ?during r" and more: "length (answer r) < wanted r"
      "get_chunk_coords_from_offset (position r) = Some (x, z)"
      and img: "blob_image E cont s (chunk_of r x z) = blob_of E (chunk_of r x z) (Some d)"
      using ok' h(2) sharedD(7) [OF sh h(1)] by (simp_all add: blob_image_def)
    from At_fill step have "handler_step E (At_fill r x z d) s = Some (h', s')" by simp
    then show ?thesis
    proof (cases rule: fill_step)
      case stop
      then show ?thesis using img more by (auto intro!: reader_stop [OF way more(1) s2] none simp del: reader_ok.simps)
    next
      case (fill b)
      then have "visible E entries cont s' (chunk_of r x z) = Some b"
        using lru_okD(4) [OF lru, of "chunk_of r x z" b "cache s"] by (simp add: visible_def)
      then show ?thesis
        using take_piece_seen [OF way more s'] sharedD(3) [OF sh, of "chunk_of r x z" b] img fill by simp
    qed
  next
    case (At_end r)
    with reader_replies [of E entries cont ?during r s h' s'] ok' step show ?thesis by simp
  qed (use step in \<open>auto split: option.splits prod.splits sum.splits\<close>)
qed

text \<open>A request that has just come in.\<close>

lemma start_read_seen:
  assumes "header_cache E = generate_header" and n: "n < 2 ^ 32"
  shows "reader_ok E entries cont [s] (start_read E off n X Z)"
proof -
  have h: "read_header E off n = header_part off n"
    by (simp add: read_header_def Let_def assms(1) header_part_def HEADER_BYTES_def word_less_nat_alt)
  show ?thesis
    using header_part_byte [OF n] header_part_end [of off n] header_part_length [of off n]
    by (auto simp: start_read_def h on_way_def seen_def position_def)
qed

lemma start_write_seen: "reader_ok E entries cont during (start_write E off data X Z)"
  by (simp add: start_write_def Let_def split: option.split prod.split sum.split)

lemma session_readers:
  assumes run: "session E (undisturbed E) s0 past ts hs" and inv: "served E entries cont eff sinv s0"
    and hon: "honest_generator E eff" and verb: "saves_verbatim E eff sinv"
  shows "\<forall>(k, h) \<in> set hs. k < length past \<and> reader_ok E entries cont (drop k past) h"
  using run
proof (induction rule: session.induct)
  case (Step past ts hs s' ts' hs')
  note sh = session_shared [OF Step.hyps(1) inv hon verb]
  have now: "last past \<in> set (drop k past)" if "k < length past" for k
    using that by (metis drop_eq_Nil2 last_drop last_in_set not_le)
  have old: "k < length (past @ [s']) \<and> reader_ok E entries cont (drop k (past @ [s'])) h" if "(k, h) \<in> set hs" for k h
  proof -
    have k: "k < length past" and ok: "reader_ok E entries cont (drop k past) h" using Step.IH that by auto
    have "set (drop k past) \<subseteq> set (drop k (past @ [s']))" using k by auto
    with reader_ok_mono [OF ok this] k show ?thesis by simp
  qed
  show ?case
    using Step.hyps(2)
  proof (elim stepE)
    fix i k h h'
    assume h: "hs' = hs[i := (k, h')]" "i < length hs" "hs ! i = (k, h)" "handler_step E h (last past) = Some (h', s')"
    have mem: "(k, h) \<in> set hs" using h(2,3) nth_mem by metis
    then have k: "k < length past" and ok: "reader_ok E entries cont (drop k past) h" using Step.IH by auto
    have "in_slot h" using session_in_slot [OF Step.hyps(1)] mem by blast
    from reader_step [OF sh mem this ok now [OF k] h(4)]
    have "reader_ok E entries cont (drop k (past @ [s'])) h'" using k by simp
    then show ?thesis
      using old k set_update_subset_insert [of hs i "(k, h')"] unfolding h(1) by fastforce
  qed (use old in blast)+
next
  case (Read_request past ts hs n off X Z)
  have "drop (length past - 1) past = [last past]" "length past - 1 < length past"
    using session_nonempty [OF Read_request.hyps(1)] by (cases past rule: rev_cases; simp)+
  then show ?case
    using Read_request.IH start_read_seen [OF env_okD(2) [OF servedD(1) [OF inv]] Read_request.hyps(2)] by auto
next
  case (Write_request past ts hs off data X Z)
  then show ?case using session_nonempty [OF Write_request.hyps] start_write_seen by auto
qed simp

subsection \<open>Sessions in which nothing is saved\<close>

lemma no_saves_image:
  assumes run: "session E no_saves s0 past ts hs" and inv: "served E entries cont eff sinv s0"
    and hon: "honest_generator E eff" and verb: "saves_verbatim E eff sinv"
  shows "(\<forall>s \<in> set past. visible E entries cont s = blob_image E cont s0) \<and>
    blob_image E cont (last past) = blob_image E cont s0 \<and> \<not> (\<exists>k p b. (k, At_refresh p b) \<in> set hs)"
  using run
proof (induction rule: session.induct)
  case Begin
  then show ?case using visible_served [OF inv] by simp
next
  case (Step past ts hs s' ts' hs')
  have und: "session E (undisturbed E) s0 past ts hs"
    by (rule session_mono [OF Step.hyps(1)]) (rule no_saves_undisturbed)
  have after: "session E (undisturbed E) s0 (past @ [s']) ts' hs'"
    by (rule session.Step [OF und], rule step_mono [OF Step.hyps(2)]) (rule no_saves_undisturbed)
  note sh = session_shared [OF und inv hon verb]
  have one: "blob_image E cont s' = blob_image E cont (last past) \<and> \<not> (\<exists>k p b. (k, At_refresh p b) \<in> set hs')"
    using Step.hyps(2)
  proof (elim stepE)
    fix p ps
    assume "s' = last past\<lparr>spawned := ps\<rparr>" "hs' = hs"
    then show ?thesis using Step.IH blob_image_cong [of cont s' "last past" E] by simp
  next
    fix i joined t'
    assume "hs' = hs" "ts' = ts[i := t']" "i < length ts" "task_step E joined (ts ! i) (last past) = Some (t', s')"
    then show ?thesis using Step.IH shared_run_task [OF sh hon] by blast
  next
    fix i k h h'
    assume h: "hs' = hs[i := (k, h')]" "i < length hs" "hs ! i = (k, h)" "no_saves h ts hs"
      "handler_step E h (last past) = Some (h', s')"
    have no: "\<not> is_save h" using h(4) by (auto simp: is_save_def no_saves_def)
    have mem: "(k, h) \<in> set hs" using h(2,3) nth_mem by metis
    have "\<not> (\<exists>p b. h' = At_refresh p b)"
      using handler_step_effect [OF sharedD(1,2) [OF sh] sharedD(7) [OF sh mem] h(5) no] by blast
    then have "\<not> (\<exists>k p b. (k, At_refresh p b) \<in> set hs')"
      using Step.IH set_update_subset_insert [of hs i "(k, h')"] unfolding h(1) by blast
    then show ?thesis using shared_run_handler [OF sh h(2,3,5) no] by blast
  qed
  have "shared E entries cont eff sinv (s', ts', hs')"
    using session_shared [OF after inv hon verb] by simp
  with one have "served E entries cont eff sinv s'" by (intro shared_served) auto
  then have "visible E entries cont s' = blob_image E cont s'" by (rule visible_served)
  then show ?case using one Step.IH by simp
next
  case (Read_request past ts hs n off X Z)
  then show ?case by (simp add: start_read_def)
next
  case (Write_request past ts hs off data X Z)
  have "At_refresh p b \<noteq> start_write E off data X Z" for p b
    by (simp add: start_write_def Let_def split: option.split prod.split sum.split)
  then show ?case using Write_request.IH by simp
qed

lemma answered_slice:
  assumes "answered E entries cont during r" and "\<forall>s \<in> set during. visible E entries cont s = img"
  shows "answer r = file_slice img (of_x r) (of_z r) (at_offset r) (wanted r)"
proof -
  let ?f = "\<lambda>i. file_byte img (of_x r) (of_z r) (at_offset r + of_nat i)"
  obtain m where m: "m \<le> wanted r" "seen E entries cont during r m"
    "answer r = take m (answer r) @ zeros (wanted r - m)" "m = wanted r \<or> missing E entries cont during r m"
    using assms(1) unfolding answered_def by blast
  let ?p = "take m (answer r)"
  have p: "length ?p = m" using m(2) by (simp add: seen_def)
  have "?f i = Some (?p ! i)" if "i < length ?p" for i
    using m(2) that assms(2) by (auto simp: seen_def)
  from available_append [OF this, of "wanted r"] m(1) p
  have "available (wanted r) ?f = ?p @ available (wanted r - m) (\<lambda>i. ?f (m + i))" by simp
  moreover have "available (wanted r - m) (\<lambda>i. ?f (m + i)) = []"
    using m(4) assms(2) by (auto simp: missing_def)
  ultimately show ?thesis using m(3) p by (simp add: file_slice_def Let_def)
qed

subsection \<open>Runs of one handler in a session\<close>

lemma not_save_step: "handler_step E h s = Some (h', s') \<Longrightarrow> \<not> is_save h \<Longrightarrow> \<not> is_save h'"
  by (cases h)
     (auto simp: is_save_def take_piece_def Let_def split: option.splits prod.splits sum.splits if_splits)

lemma session_run_handler:
  assumes free: "\<And>h ts hs. \<not> is_save h \<Longrightarrow> ok h ts hs"
  shows "session E ok s0 past ts hs \<Longrightarrow> i < length hs \<Longrightarrow> hs ! i = (k, h) \<Longrightarrow> \<not> is_save h \<Longrightarrow>
    run_handler n E h (last past) = (h', s') \<Longrightarrow>
    \<exists>more. session E ok s0 (past @ more) ts (hs[i := (k, h')]) \<and> last (past @ more) = s'"
proof (induction n arbitrary: past hs h)
  case 0
  then have "hs[i := (k, h')] = hs" "last past = s'" using list_update_id [of hs i] by auto
  with 0 show ?case by (intro exI [of _ "[]"]) simp
next
  case (Suc n)
  show ?case
  proof (cases "handler_step E h (last past)")
    case None
    then have "hs[i := (k, h')] = hs" "last past = s'" using Suc.prems list_update_id [of hs i] by auto
    with Suc.prems show ?thesis by (intro exI [of _ "[]"]) simp
  next
    case (Some r)
    obtain h1 s1 where r: "handler_step E h (last past) = Some (h1, s1)" using Some by (cases r) simp
    have "step E ok (last past, ts, hs) (s1, ts, hs[i := (k, h1)])"
      using Suc.prems(2,3) free [OF Suc.prems(4)] r by (rule Run_handler)
    then have run: "session E ok s0 (past @ [s1]) ts (hs[i := (k, h1)])" by (rule session.Step [OF Suc.prems(1)])
    have "run_handler n E h1 (last (past @ [s1])) = (h', s')" using Suc.prems(5) r by simp
    from Suc.IH [OF run _ _ not_save_step [OF r Suc.prems(4)] this] Suc.prems(2)
    obtain more where "session E ok s0 ((past @ [s1]) @ more) ts (hs[i := (k, h')])" "last ((past @ [s1]) @ more) = s'"
      by auto
    then show ?thesis by (intro exI [of _ "s1 # more"]) simp
  qed
qed

subsection \<open>Properties\<close>

text \<open>C4: reads are regular: over a lawful cache, a storage that keeps its contract, keeps chunks as they
  are and does not fail, and an honest generator, in every interleaving of reads, writes and prefetch
  tasks, cut at their locks and awaits, every byte of an answer is the byte of the visible image at some
  moment between the request and the answer; the answer ends where at some such moment the image has
  no byte, and the rest of it is zero. And whenever no write stands between its save and its update of
  the cache, cache and storage agree on one image again. The condition on every save, even one that is alone: its
  data declare the coordinates they are saved under, they compress to a blob that fits the slot, and no other
  thread is at work on the same chunk. Without the last, \<open>Races\<close> shows what is lost, without the first
  \<open>Eviction\<close>.\<close>

theorem interleaved_reads:
  assumes "served E entries cont eff sinv s0" and "honest_generator E eff" and "saves_verbatim E eff sinv"
    and "session E (undisturbed E) s0 past ts hs"
  shows "(\<forall>k r. (k, Replied r) \<in> set hs \<longrightarrow> (\<exists>m \<le> wanted r. length (answer r) = wanted r \<and>
       (\<forall>i < m. \<exists>s \<in> set (drop k past).
          file_byte (visible E entries cont s) (of_x r) (of_z r) (at_offset r + of_nat i) = Some (answer r ! i)) \<and>
       drop m (answer r) = replicate (wanted r - m) 0 \<and>
       (m = wanted r \<or> (\<exists>s \<in> set (drop k past).
          file_byte (visible E entries cont s) (of_x r) (of_z r) (at_offset r + of_nat m) = None)))) \<and>
    ((\<forall>k p b. (k, At_refresh p b) \<notin> set hs) \<longrightarrow>
       served E entries cont eff sinv (last past) \<and>
       visible E entries cont (last past) = blob_image E cont (last past))"
proof (intro conjI allI impI)
  fix k r
  assume "(k, Replied r) \<in> set hs"
  then have "answered E entries cont (drop k past) r" using session_readers [OF assms(4,1,2,3)] by fastforce
  then obtain m where m: "m \<le> wanted r" "seen E entries cont (drop k past) r m"
    "answer r = take m (answer r) @ zeros (wanted r - m)" "m = wanted r \<or> missing E entries cont (drop k past) r m"
    unfolding answered_def by blast
  have p: "length (take m (answer r)) = m" using m(2) by (simp add: seen_def)
  have "length (answer r) = wanted r" using p m(1) by (subst m(3)) simp
  moreover have "drop m (answer r) = zeros (wanted r - m)" using p by (subst m(3)) simp
  ultimately show "\<exists>m \<le> wanted r. length (answer r) = wanted r \<and>
       (\<forall>i < m. \<exists>s \<in> set (drop k past).
          file_byte (visible E entries cont s) (of_x r) (of_z r) (at_offset r + of_nat i) = Some (answer r ! i)) \<and>
       drop m (answer r) = replicate (wanted r - m) 0 \<and>
       (m = wanted r \<or> (\<exists>s \<in> set (drop k past).
          file_byte (visible E entries cont s) (of_x r) (of_z r) (at_offset r + of_nat m) = None))"
    using m(1,2,4) unfolding seen_def missing_def by blast
next
  assume "\<forall>k p b. (k, At_refresh p b) \<notin> set hs"
  then show "served E entries cont eff sinv (last past)"
    using shared_served [OF session_shared [OF assms(4,1,2,3)]] by blast
  then show "visible E entries cont (last past) = blob_image E cont (last past)" by (rule visible_served)
qed

text \<open>A write past its save and before its update of the cache, and a whole read in between.\<close>

theorem interleaved_reads_witness:
  "\<exists>past ts hs r m. session (fst (demo 0)) (undisturbed (fst (demo 0))) (snd (demo 0)) past ts hs \<and>
     set hs = {(0, At_refresh (1, 0) [0, 0, 0, 4, 2, 0, 1, 0]), (1, Replied r)} \<and> wanted r = 8 \<and>
     length (answer r) = 8 \<and> m \<le> 8 \<and> drop m (answer r) = replicate (8 - m) 0"
proof -
  let ?E = "fst (demo 0)" and ?s = "snd (demo 0)" and ?raw = "[0, 1, 0] :: bytes" and ?p = "(1, 0) :: chunk_pos"
  let ?writer = "(0, At_refresh (1, 0) [0, 0, 0, 4, 2, 0, 1, 0]) :: nat \<times> handler"
  have w: "start_write ?E 8192 [0, 0, 0, 4, 2, 0, 1, 0] 0 0 = At_save (1, 0) ?raw"
    by (rule start_write_carried [OF demo_carried])
  have run1: "session ?E (undisturbed ?E) ?s [?s] [] [(0, At_save (1, 0) ?raw)]"
    using session.Write_request [OF session.Begin, of ?E "undisturbed ?E" ?s 8192 "[0, 0, 0, 4, 2, 0, 1, 0]" 0 0] w by simp
  have ok: "undisturbed ?E (At_save (1, 0) ?raw) [] [(0, At_save (1, 0) ?raw)]"
    using carriedD(4,5) [OF demo_carried [of 0]] by (simp add: undisturbed_def)
  obtain d where save: "save_chunk (postgres_ops tiny_nbt sum_num_lib) (fst ?p) (snd ?p) ?raw (store ?s) = (Inr (), d)"
    using reliable_save [OF mem_reliable servedD(2) [OF demo_served [of 0]], of tiny_nbt sum_num_lib 1 0 ?raw]
    by (metis fst_conv snd_conv prod.collapse)
  have blob: "compress_and_wrap_chunk (compressor ?E) ?raw = Some [0, 0, 0, 4, 2, 0, 1, 0]"
    by (rule carriedD(5) [OF demo_carried])
  obtain s1 where saved: "handler_step ?E (At_save (1, 0) ?raw) ?s = Some (snd ?writer, s1)"
    by (rule save_step [OF _ save blob]) simp_all
  have "step ?E (undisturbed ?E) (last [?s], [], [(0, At_save (1, 0) ?raw)]) (s1, [], [?writer])"
    using Run_handler [of 0 "[(0, At_save (1, 0) ?raw)]" 0 "At_save (1, 0) ?raw" "undisturbed ?E" "[]" ?E ?s] ok saved by simp
  from session.Step [OF run1 this] have run2: "session ?E (undisturbed ?E) ?s [?s, s1] [] [?writer]" by simp
  have run3: "session ?E (undisturbed ?E) ?s [?s, s1] [] [?writer, (1, start_read ?E 8192 8 0 0)]"
    using session.Read_request [OF run2, of 8 8192 0 0] by simp
  obtain r where r: "run_handler (4 * 8 + 2) ?E (start_read ?E 8192 8 0 0) s1 = (Replied r, snd (read_at ?E 8192 8 0 0 s1))"
    and wanted: "wanted r = 8" by (rule read_alone [of 8 ?E 8192 0 0 s1]) auto
  have free: "undisturbed ?E h ts hs" if "\<not> is_save h" for h ts hs
    using that by (cases h) (simp_all add: undisturbed_def is_save_def)
  obtain more where run4: "session ?E (undisturbed ?E) ?s ([?s, s1] @ more) [] [?writer, (1, Replied r)]"
    using session_run_handler [OF free run3, of 1 1 "start_read ?E 8192 8 0 0" "4 * 8 + 2"] r
    by (auto simp: start_read_def is_save_def)
  have "(1, Replied r) \<in> set [?writer, (1, Replied r)]" by simp
  with interleaved_reads [OF demo_served demo_honest demo_saves run4]
  obtain m where "m \<le> 8" "length (answer r) = 8" "drop m (answer r) = replicate (8 - m) 0"
    unfolding wanted [symmetric] by blast
  moreover have "set [?writer, (1, Replied r)] = {?writer, (1, Replied r)}" by simp
  ultimately show ?thesis using run4 wanted by blast
qed



end
