(* ===== verification/Races.thy ===== *)
theory Races
  imports Concurrency
begin

text \<open>
  Three interleavings in which a write that reported success is lost or hidden. Between the look at
  the storage and the use of what was found no lock is held, neither by the prefetch tasks nor by
  the handlers; nor between the save of a write and its update of the cache.
\<close>

subsection \<open>The cache in front of the storage\<close>

text \<open>Once a blob is cached it is what reads see, whatever the storage has.\<close>

lemma cached_is_read:
  assumes lru: "lru_ok (cache_ops E) entries" and rel: "unat x < 32" "unat z < 32"
    and hit: "entries (cache s) (X * 32 + x, Z * 32 + z) = Some b"
  shows "\<forall>n \<le> length b. fst (read_at E (get_chunk_file_offset x z) n X Z s) = take n b"
  using read_cached [OF lru _ hit] rel by (simp add: rel_pos_def)

lemma demo_carried_one:
  "carried (fst (demo r)) 8192 [0, 0, 0, 4, 2, 1, 1, 0] = Some ((1, 0), [1, 1, 0], [0, 0, 0, 4, 2, 1, 1, 0])"
proof -
  have tiny: "declared_coords tiny_nbt [1, 1, 0] = Some (1, 0)"
    by (simp add: declared_coords_def coord_pair_def tiny_nbt_def coords_nbt_def)
  show ?thesis
    by (simp add: carried_def coords_8192 unwrap_and_decompress_chunk_def compression_consts decoded_def
        stored_codec_def tiny compress_and_wrap_chunk_def to_be_bytes_def)
qed

subsection \<open>Properties\<close>

text \<open>C12: a write is lost to a prefetch of the same chunk that is already past its look into the
  database: the write saves the chunk and reports success, then the task saves the generated
  chunk over it, and puts it into the cache too, so that reads show it as well.\<close>

theorem prefetch_loses_write:
  fixes X Z :: i32
  assumes cs: "chunk_storage ops cont eff sinv" and st: "storage E = Some ops"
    and lru: "lru_ok (cache_ops E) entries" and miss: "entries (cache s) p = None"
    and permit: "0 < permits s" and inv: "sinv (store s)"
    and load: "load_chunk ops (fst p) (snd p) (store s) = (Inr None, d)"
    and gen: "\<forall>t. fst (generate_chunk E (fst p) (snd p) t) = Inr nbt"
    and blob: "compress_and_wrap_chunk (compressor E) nbt = Some blob"
    and car: "carried E off data = Some (p, raw, b)"
    and save1: "save_chunk ops (fst p) (snd p) raw d = (Inr (), d1)"
    and save2: "save_chunk ops (fst p) (snd p) nbt d1 = (Inr (), d2)"
    and eff: "eff raw = Some (Some raw)" "eff nbt = Some (Some nbt)"
  shows "let (t, s1) = run_task 4 E (Check_cache p) s;
             s2 = write_at E off data X Z s1;
             (t', s3) = run_task 3 E t s2
         in cont (store s2) p = Some raw \<and> t' = Finished \<and>
            cont (store s3) p = Some nbt \<and> entries (cache s3) p = Some blob"
proof -
  have not: "\<not> lru_contains (cache_ops E) p (cache s)" using lru_okD(6) [OF lru] miss by simp
  let ?s1 = "s\<lparr>permits := permits s - 1, store := d\<rparr>"
  have one: "run_task 4 E (Check_cache p) s = (Generate p, ?s1)"
    using not permit load by (simp add: numeral_eq_Suc st)
  define u where "u = write_at E off data X Z ?s1"
  have s2: "store u = d1"
    unfolding u_def using write_at_carried [OF car st, of ?s1 d1 X Z] save1 by simp
  obtain ops' where g: "generate_chunk E (fst p) (snd p) (ticks u) = (Inr nbt, ops')"
    using gen by (metis prod.collapse)
  obtain s3 where two: "run_task 3 E (Generate p) u = (Finished, s3)"
    and s3: "store s3 = d2" "\<exists>c. cache s3 = lru_put (cache_ops E) p blob c"
    using save2 s2 by (simp add: numeral_eq_Suc st generate_timed_def g blob) blast
  have d: "sinv d"
    using chunk_storage.invar_load [OF cs inv, of "fst p" "snd p"] load by simp
  have d1: "sinv d1" using chunk_storage.invar_save [OF cs d, of "fst p" "snd p" raw] save1 by simp
  have "cont d1 p = Some raw" "cont d2 p = Some nbt"
    using chunk_storage.save_ok [OF cs d save1] chunk_storage.save_ok [OF cs d1 save2]
    by (simp_all add: apply_effect_def eff)
  moreover have "entries (cache s3) p = Some blob" using s3(2) lru_okD(4) [OF lru] by fastforce
  ultimately have "cont (store u) p = Some raw \<and> Finished = Finished \<and>
      cont (store s3) p = Some nbt \<and> entries (cache s3) p = Some blob"
    using s2 s3(1) by simp
  then show ?thesis unfolding Let_def one prod.case u_def [symmetric] two .
qed

theorem prefetch_loses_write_witness:
  "let (t, s1) = run_task 4 (fst (demo 0)) (Check_cache (1, 0)) (snd (demo 0));
       s2 = write_at (fst (demo 0)) 8192 [0, 0, 0, 4, 2, 1, 1, 0] 0 0 s1;
       (t', s3) = run_task 3 (fst (demo 0)) t s2
   in raw_contents mem_view (store s2) (1, 0) = Some [1, 1, 0] \<and>
      raw_contents mem_view (store s3) (1, 0) = Some [0, 1, 0]"
proof -
  let ?p = "(1, 0) :: chunk_pos" and ?E = "fst (demo 0)" and ?s = "snd (demo 0)"
  let ?ops = "postgres_ops tiny_nbt sum_num_lib :: demo_storage storage_ops"
  let ?st = "mem_storage PgRaw :: demo_storage"
  have st: "storage ?E = Some ?ops" by simp
  have lru: "lru_ok (cache_ops ?E) list_entries" by (simp add: list_lru_ok)
  have miss: "list_entries (cache ?s) ?p = None" and permit: "0 < permits ?s" by simp_all
  have inv: "lawful PgRaw id mem_view (store ?s)" by (simp add: lawful_def mem_client_ok)
  have load: "load_chunk ?ops (fst ?p) (snd ?p) (store ?s) = (Inr None, ?st)"
    by (simp add: postgres_ops_def pg_load_chunk_def pg_eval mem_client_def mem_query_def mem_view_def)
  have gen: "\<forall>t. fst (generate_chunk ?E (fst ?p) (snd ?p) t) = Inr [0, 1, 0]"
    by (simp add: tiny_generator_def)
  have blob: "compress_and_wrap_chunk (compressor ?E) [0, 1, 0] = Some [0, 0, 0, 4, 2, 0, 1, 0]"
    by (simp add: stored_codec_def compress_and_wrap_chunk_def to_be_bytes_def)
  obtain d1 d2 where save1: "save_chunk ?ops (fst ?p) (snd ?p) [1, 1, 0] ?st = (Inr (), d1)"
    and save2: "save_chunk ?ops (fst ?p) (snd ?p) [0, 1, 0] d1 = (Inr (), d2)"
    by (simp add: postgres_ops_def pg_save_chunk_def pg_eval done_or_def mem_client_def)
  obtain t s1 where r1: "run_task 4 ?E (Check_cache ?p) ?s = (t, s1)" by fastforce
  obtain t' s3 where r2: "run_task 3 ?E t (write_at ?E 8192 [0, 0, 0, 4, 2, 1, 1, 0] 0 0 s1) = (t', s3)"
    by fastforce
  show ?thesis
    using prefetch_loses_write [OF raw_chunk_storage [where jb = id] st lru miss permit inv load gen blob demo_carried_one
      save1 save2 refl refl, of 0 0]
    unfolding Let_def r1 prod.case r2 by blast
qed

text \<open>C13: a read can hide a write: a read that has loaded a chunk and not yet put it into the
  cache, then a whole write of the same chunk, which reports success, then the rest of the read's
  turn. In the state that results the storage has the new chunk and the cache the old one, and a read of the
  slot shows the old one.\<close>

theorem late_fill_hides_write:
  fixes X Z :: i32
  assumes cs: "chunk_storage ops cont eff sinv" and st: "storage E = Some ops"
    and lru: "lru_ok (cache_ops E) entries" and inv: "sinv (store s)"
    and more: "length (answer r) < wanted r" and at: "get_chunk_coords_from_offset (position r) = Some (x, z)"
    and p: "p = (of_x r * 32 + x, of_z r * 32 + z)" and miss: "entries (cache s) p = None"
    and load: "load_chunk ops (fst p) (snd p) (store s) = (Inr (Some old), d)"
    and decl: "declared_coords (fastnbt E) old = Some p" and blob: "compress_and_wrap_chunk (compressor E) old = Some b_old"
    and car: "carried E off data = Some (p, raw, b)" and eff: "eff raw = Some (Some raw)"
    and save: "save_chunk ops (fst p) (snd p) raw d = (Inr (), d1)"
  shows "let (h, s1) = run_handler 2 E (At_lookup r) s;
             s2 = write_at E off data X Z s1;
             (h', s3) = run_handler 1 E h s2
         in entries (cache s2) p = Some b \<and> cont (store s3) p = Some raw \<and>
            (\<forall>n \<le> length b_old. fst (read_at E (get_chunk_file_offset x z) n (of_x r) (of_z r) s3) = take n b_old)"
proof -
  have k: "chunk_of r x z = p" by (simp add: chunk_of_def p)
  obtain px pz where pp: "p = (px, pz)" by (cases p)
  have "fst (lru_get (cache_ops E) p (cache s)) = None" by (simp add: lru_okD(2) [OF lru] miss)
  then obtain c where get: "lru_get (cache_ops E) p (cache s) = (None, c)" by (metis prod.collapse)
  have ok: "verify_chunk_coords (fastnbt E) old px pz = Inr ()" by (simp add: verify_chunk_coords_declared decl pp)
  obtain s1 where one: "run_handler 2 E (At_lookup r) s = (At_fill r x z old, s1)" and s1: "store s1 = d"
    using more load get by (simp add: numeral_2_eq_2 at k st pp ok)
  define s2 where "s2 = write_at E off data X Z s1"
  have s2: "store s2 = d1" "cache s2 = lru_put (cache_ops E) p b (cache s1)"
    using write_at_carried [OF car st, of s1 d1 X Z] save s1 by (simp_all add: s2_def)
  obtain h' s3 where two: "run_handler 1 E (At_fill r x z old) s2 = (h', s3)"
    and s3: "store s3 = d1" "cache s3 = lru_put (cache_ops E) p b_old (cache s2)"
    using s2(1) by (simp add: k pp ok blob Let_def)
  have "sinv d" using chunk_storage.invar_load [OF cs inv, of "fst p" "snd p"] load by simp
  then have "cont d1 p = Some raw" using chunk_storage.save_ok [OF cs _ save] by (simp add: apply_effect_def eff)
  moreover have "entries (cache s3) p = Some b_old" "entries (cache s2) p = Some b"
    unfolding s3 s2 by (rule lru_okD(4) [OF lru])+
  moreover have "unat x < 32" "unat z < 32" using coords_SomeD [OF at] by (simp_all add: rel_pos_def)
  ultimately show ?thesis
    using cached_is_read [OF lru, of x z s3 "of_x r" "of_z r" b_old] s3
    unfolding Let_def one prod.case s2_def [symmetric] two by (simp add: p)
qed

theorem late_fill_hides_write_witness:
  "let E = fst (demo 0);
       s = (snd (demo 0))\<lparr>store := \<lparr>pool = mem_client, mode = PgRaw, db = (Map.empty((1, 0) \<mapsto> [0, 1, 0]), Map.empty)\<rparr>\<rparr>;
       r = \<lparr>at_offset = get_chunk_file_offset 1 0, wanted = 8, of_x = 0, of_z = 0, answer = []\<rparr>;
       (h, s1) = run_handler 2 E (At_lookup r) s;
       s2 = write_at E 8192 [0, 0, 0, 4, 2, 1, 1, 0] 0 0 s1;
       (h', s3) = run_handler 1 E h s2
   in raw_contents mem_view (store s3) (1, 0) = Some [1, 1, 0] \<and>
      fst (read_at E (get_chunk_file_offset 1 0) 8 0 0 s3) = [0, 0, 0, 4, 2, 0, 1, 0]"
proof -
  let ?p = "(1, 0) :: chunk_pos" and ?E = "fst (demo 0)"
  let ?ops = "postgres_ops tiny_nbt sum_num_lib :: demo_storage storage_ops"
  let ?st = "\<lparr>pool = mem_client, mode = PgRaw, db = (Map.empty((1, 0) \<mapsto> [0, 1, 0]), Map.empty)\<rparr> :: demo_storage"
  let ?s = "(snd (demo 0))\<lparr>store := ?st\<rparr>"
  let ?r = "\<lparr>at_offset = get_chunk_file_offset 1 0, wanted = 8, of_x = 0, of_z = 0, answer = []\<rparr>"
  have st: "storage ?E = Some ?ops" by simp
  have lru: "lru_ok (cache_ops ?E) list_entries" by (simp add: list_lru_ok)
  have inv: "lawful PgRaw id mem_view (store ?s)" by (simp add: lawful_def mem_client_ok)
  have more: "length (answer ?r) < wanted ?r" by simp
  have at: "get_chunk_coords_from_offset (position ?r) = Some (1, 0)"
    by (simp add: position_def coords_Some_iff rel_pos_def)
  have p: "?p = (of_x ?r * 32 + 1, of_z ?r * 32 + 0)" by simp
  have miss: "list_entries (cache ?s) ?p = None" by simp
  have load: "load_chunk ?ops (fst ?p) (snd ?p) (store ?s) = (Inr (Some [0, 1, 0]), ?st)"
    by (simp add: postgres_ops_def pg_load_chunk_def pg_eval mem_client_def mem_query_def mem_view_def)
  have decl: "declared_coords (fastnbt ?E) [0, 1, 0] = Some ?p" using tiny_declared [of 1 0] by simp
  have blob: "compress_and_wrap_chunk (compressor ?E) [0, 1, 0] = Some [0, 0, 0, 4, 2, 0, 1, 0]"
    by (simp add: stored_codec_def compress_and_wrap_chunk_def to_be_bytes_def)
  obtain d1 where save: "save_chunk ?ops (fst ?p) (snd ?p) [1, 1, 0] ?st = (Inr (), d1)"
    by (simp add: postgres_ops_def pg_save_chunk_def pg_eval done_or_def mem_client_def)
  note race = late_fill_hides_write [OF raw_chunk_storage [where jb = id] st lru inv more at p miss load decl blob demo_carried_one refl save, of 0 0]
  have eight: "\<forall>n \<le> length [0, 0, 0, 4, 2, 0, 1, 0 :: u8]. P n \<Longrightarrow> P 8" for P by simp
  show ?thesis using race by (auto simp: Let_def split_beta dest: eight)
qed

text \<open>C14: two writes of one chunk can cross: both are saved, the second over the first, and then the
  second updates the cache before the first does. Both report success; the storage keeps the second,
  reads show the first for as long as it stays cached and the second from then on.\<close>

theorem crossed_writes:
  fixes X Z X1 Z1 X2 Z2 :: i32
  assumes cs: "chunk_storage ops cont eff sinv" and st: "storage E = Some ops"
    and lru: "lru_ok (cache_ops E) entries" and inv: "sinv (store s)"
    and rel: "unat x < 32" "unat z < 32" and p: "p = (X * 32 + x, Z * 32 + z)"
    and car1: "carried E off1 data1 = Some (p, raw1, b1)" and car2: "carried E off2 data2 = Some (p, raw2, b2)"
    and eff: "eff raw2 = Some (Some raw2)"
    and save1: "save_chunk ops (fst p) (snd p) raw1 (store s) = (Inr (), d1)"
    and save2: "save_chunk ops (fst p) (snd p) raw2 d1 = (Inr (), d2)"
  shows "let (h, s1) = run_handler 1 E (start_write E off1 data1 X1 Z1) s;
             s2 = write_at E off2 data2 X2 Z2 s1;
             (h', s3) = run_handler 1 E h s2
         in h' = Written \<and> cont (store s3) p = Some raw2 \<and>
            (\<forall>n \<le> length b1. fst (read_at E (get_chunk_file_offset x z) n X Z s3) = take n b1)"
proof -
  obtain s1 where step: "handler_step E (At_save p raw1) s = Some (At_refresh p b1, s1)" and s1: "store s1 = d1"
    by (rule save_step [OF st save1 carriedD(5) [OF car1]])
  have one: "run_handler 1 E (start_write E off1 data1 X1 Z1) s = (At_refresh p b1, s1)"
    unfolding start_write_carried [OF car1] One_nat_def run_handler.simps step by simp
  define s2 where "s2 = write_at E off2 data2 X2 Z2 s1"
  have s2: "store s2 = d2" using write_at_carried [OF car2 st, of s1 d2 X2 Z2] save2 s1 by (simp add: s2_def)
  let ?s3 = "s2\<lparr>cache := lru_put (cache_ops E) p b1 (cache s2)\<rparr>"
  have two: "run_handler 1 E (At_refresh p b1) s2 = (Written, ?s3)" by simp
  have "sinv d1" using chunk_storage.invar_save [OF cs inv, of "fst p" "snd p" raw1] save1 by simp
  then have "cont (store ?s3) p = Some raw2"
    using chunk_storage.save_ok [OF cs _ save2] s2 by (simp add: apply_effect_def eff)
  moreover have "entries (cache ?s3) (X * 32 + x, Z * 32 + z) = Some b1"
    using lru_okD(4) [OF lru, of p b1] by (simp add: p)
  ultimately show ?thesis
    using cached_is_read [OF lru rel] unfolding Let_def one prod.case s2_def [symmetric] two by blast
qed

theorem crossed_writes_witness:
  "let E = fst (demo 0);
       (h, s1) = run_handler 1 E (start_write E 8192 [0, 0, 0, 4, 2, 0, 1, 0] 0 0) (snd (demo 0));
       s2 = write_at E 8192 [0, 0, 0, 4, 2, 1, 1, 0] 0 0 s1;
       (h', s3) = run_handler 1 E h s2
   in raw_contents mem_view (store s3) (1, 0) = Some [1, 1, 0] \<and>
      fst (read_at E (get_chunk_file_offset 1 0) 8 0 0 s3) = [0, 0, 0, 4, 2, 0, 1, 0]"
proof -
  let ?p = "(1, 0) :: chunk_pos" and ?E = "fst (demo 0)"
  let ?ops = "postgres_ops tiny_nbt sum_num_lib :: demo_storage storage_ops"
  let ?st = "mem_storage PgRaw :: demo_storage"
  have st: "storage ?E = Some ?ops" by simp
  have lru: "lru_ok (cache_ops ?E) list_entries" by (simp add: list_lru_ok)
  have inv: "lawful PgRaw id mem_view (store (snd (demo 0)))" by (simp add: lawful_def mem_client_ok)
  have rel: "unat (1 :: i32) < 32" "unat (0 :: i32) < 32" by simp_all
  have p: "?p = (0 * 32 + 1, 0 * 32 + 0)" by simp
  obtain d1 d2 where save1: "save_chunk ?ops (fst ?p) (snd ?p) [0, 1, 0] (store (snd (demo 0))) = (Inr (), d1)"
    and save2: "save_chunk ?ops (fst ?p) (snd ?p) [1, 1, 0] d1 = (Inr (), d2)"
    by (simp add: postgres_ops_def pg_save_chunk_def pg_eval done_or_def mem_client_def)
  note race = crossed_writes [OF raw_chunk_storage [where jb = id] st lru inv rel p demo_carried demo_carried_one refl save1 save2, of 0 0 0 0]
  have eight: "\<forall>n \<le> length [0, 0, 0, 4, 2, 0, 1, 0 :: u8]. P n \<Longrightarrow> P 8" for P by simp
  show ?thesis using race by (auto simp: Let_def split_beta dest: eight)
qed

end
