(* ===== verification/Fuse.thy ===== *)
theory Fuse
  imports Serving Inode
begin

text \<open>
  \<open>hoppermc-fs/src/lib.rs\<close>: the FUSE handlers of \<open>McFUSE\<close>. A handler is a function of its request
  that returns what it replies, an \<open>errno\<close> or the payload; only \<open>read\<close> and \<open>write\<close> reach the virtual
  file and change its state. The thread \<open>write\<close> spawns replies when \<open>write_at\<close> is done, so the
  handler is the whole of it. File names are the bytes the kernel sends; \<open>OsStr::to_str\<close> is UTF-8
  validation.

  Arguments the handlers ignore (file handles, flags, lock owners, masks, times) are left out.
\<close>

subsection \<open>Names\<close>

text \<open>\<open>to_str\<close>: well-formed UTF-8 by Unicode's table of byte sequences.\<close>

definition between :: "u8 \<Rightarrow> u8 \<Rightarrow> u8 \<Rightarrow> bool" where
  "between lo hi b \<longleftrightarrow> lo \<le> b \<and> b \<le> hi"

abbreviation cont_byte :: "u8 \<Rightarrow> bool" where
  "cont_byte \<equiv> between 0x80 0xBF"

fun utf8 :: "bytes \<Rightarrow> bool" where
  "utf8 [] = True"
| "utf8 (a # bs) =
     (if a < 0x80 then utf8 bs
      else case bs of
        [] \<Rightarrow> False
      | b # bs \<Rightarrow>
          if between 0xC2 0xDF a then cont_byte b \<and> utf8 bs
          else (case bs of
            [] \<Rightarrow> False
          | c # bs \<Rightarrow>
              if between 0xE0 0xEF a
              then (if a = 0xE0 then between 0xA0 0xBF b else if a = 0xED then between 0x80 0x9F b else cont_byte b)
                \<and> cont_byte c \<and> utf8 bs
              else (case bs of
                [] \<Rightarrow> False
              | d # bs \<Rightarrow>
                  between 0xF0 0xF4 a
                  \<and> (if a = 0xF0 then between 0x90 0xBF b else if a = 0xF4 then between 0x80 0x8F b else cont_byte b)
                  \<and> cont_byte c \<and> cont_byte d \<and> utf8 bs)))"

definition to_str :: "bytes \<Rightarrow> bytes option" where
  "to_str name = (if utf8 name then Some name else None)"

text \<open>\<open>str::split\<close> on one character, and \<open>parse::<i32>\<close>: an optional sign, then at least one digit
  and nothing else, in range.\<close>

fun split_on :: "u8 \<Rightarrow> bytes \<Rightarrow> bytes list" where
  "split_on c [] = [[]]"
| "split_on c (b # bs) =
     (if b = c then [] # split_on c bs
      else case split_on c bs of p # ps \<Rightarrow> (b # p) # ps | [] \<Rightarrow> [[b]])"

fun digits_value :: "nat \<Rightarrow> bytes \<Rightarrow> nat option" where
  "digits_value acc [] = Some acc"
| "digits_value acc (b # bs) = (if between 48 57 b then digits_value (acc * 10 + (unat b - 48)) bs else None)"

definition signed_digits :: "bytes \<Rightarrow> int option" where
  "signed_digits s =
     (case s of
        [] \<Rightarrow> None
      | c # cs \<Rightarrow>
          if (c = 43 \<or> c = 45) \<and> cs = [] then None
          else if c = 45 then map_option (\<lambda>n. - int n) (digits_value 0 cs)
          else if c = 43 then map_option int (digits_value 0 cs)
          else map_option int (digits_value 0 s))"

definition parse_i32 :: "bytes \<Rightarrow> i32 option" where
  "parse_i32 s =
     (case signed_digits s of
        None \<Rightarrow> None
      | Some v \<Rightarrow> if - (2 ^ 31) \<le> v \<and> v < 2 ^ 31 then Some (word_of_int v) else None)"

definition parse_region_filename :: "bytes \<Rightarrow> (i32 \<times> i32) option" where
  "parse_region_filename name =
     (let parts = split_on 46 name
      in if length parts \<noteq> 4 then None
         else if parts ! 0 \<noteq> [114] \<or> parts ! 3 \<noteq> [109, 99, 97] then None
         else case parse_i32 (parts ! 1) of
                None \<Rightarrow> None
              | Some x \<Rightarrow>
                  (case parse_i32 (parts ! 2) of
                     None \<Rightarrow> None
                   | Some z \<Rightarrow> Some (x, z)))"

subsection \<open>Attributes\<close>

datatype file_type = Directory | RegularFile

datatype errno = ENOENT | ENODATA

record file_attr =
  ino :: u64
  fsize :: u64
  blocks :: u64
  atime :: nat
  mtime :: nat
  ctime :: nat
  crtime :: nat
  kind :: file_type
  perm :: u16
  nlink :: u32
  uid :: u32
  gid :: u32
  rdev :: u32
  blksize :: u32
  flags :: u32

text \<open>Who asks. Times are seconds after \<open>UNIX_EPOCH\<close>; every reply is valid for one second.\<close>

record caller =
  req_uid :: u32
  req_gid :: u32

definition DIR_ATTR_TEMPLATE :: file_attr where
  "DIR_ATTR_TEMPLATE = \<lparr>ino = 1, fsize = 0, blocks = 0, atime = 0, mtime = 0, ctime = 0, crtime = 0,
     kind = Directory, perm = 493, nlink = 2, uid = 0, gid = 0, rdev = 0, blksize = 512, flags = 0\<rparr>"

definition FILE_ATTR_TEMPLATE :: file_attr where
  "FILE_ATTR_TEMPLATE = \<lparr>ino = 2, fsize = HEADER_BYTES + (32 * 32 * SECTORS_PER_CHUNK * SECTOR_BYTES),
     blocks = 8, atime = 0, mtime = 0, ctime = 0, crtime = 0,
     kind = RegularFile, perm = 420, nlink = 1, uid = 0, gid = 0, rdev = 0, blksize = 512, flags = 0\<rparr>"

definition owned_by :: "caller \<Rightarrow> file_attr \<Rightarrow> file_attr" where
  "owned_by req attr = attr\<lparr>uid := req_uid req, gid := req_gid req\<rparr>"

subsection \<open>Handlers\<close>

definition getattr :: "caller \<Rightarrow> u64 \<Rightarrow> errno + file_attr" where
  "getattr req i =
     (if i = 1 then Inr (owned_by req DIR_ATTR_TEMPLATE)
      else if is_region_inode i then Inr (owned_by req (FILE_ATTR_TEMPLATE\<lparr>ino := i\<rparr>))
      else if is_generic_inode i then Inr (owned_by req (FILE_ATTR_TEMPLATE\<lparr>ino := i, fsize := 0\<rparr>))
      else Inl ENOENT)"

definition access :: "u64 \<Rightarrow> errno + unit" where
  "access i = (if i = 1 \<or> is_region_inode i \<or> is_generic_inode i then Inr () else Inl ENOENT)"

definition lookup :: "caller \<Rightarrow> u64 \<Rightarrow> bytes \<Rightarrow> errno + file_attr" where
  "lookup req parent name =
     (if parent \<noteq> 1 then Inl ENOENT
      else case to_str name of
             None \<Rightarrow> Inl ENOENT
           | Some name_str \<Rightarrow>
               (case parse_region_filename name_str of
                  Some (x, z) \<Rightarrow> Inr (owned_by req (FILE_ATTR_TEMPLATE\<lparr>ino := pack x z\<rparr>))
                | None \<Rightarrow> Inl ENOENT))"

definition create :: "caller \<Rightarrow> u64 \<Rightarrow> bytes \<Rightarrow> errno + file_attr" where
  "create req parent name =
     (if parent \<noteq> 1 then Inl ENOENT
      else case to_str name of
             None \<Rightarrow> Inl ENOENT
           | Some name_str \<Rightarrow>
               let i = (case parse_region_filename name_str of
                          Some (x, z) \<Rightarrow> pack x z
                        | None \<Rightarrow> pack_generic name_str);
                   attr = FILE_ATTR_TEMPLATE\<lparr>ino := i\<rparr>;
                   attr = (if \<not> is_region_inode i then attr\<lparr>fsize := 0\<rparr> else attr)
               in Inr (owned_by req attr))"

definition setattr :: "caller \<Rightarrow> u64 \<Rightarrow> errno + file_attr" where
  "setattr req i =
     (if is_region_inode i \<or> is_generic_inode i then
        let attr = FILE_ATTR_TEMPLATE\<lparr>ino := i\<rparr>;
            attr = (if is_generic_inode i then attr\<lparr>fsize := 0\<rparr> else attr)
        in Inr (owned_by req attr)
      else Inl ENOENT)"

definition unlink :: "u64 \<Rightarrow> errno + unit" where
  "unlink parent = (if parent = 1 then Inr () else Inl ENOENT)"

definition rename :: "u64 \<Rightarrow> u64 \<Rightarrow> errno + unit" where
  "rename parent newparent = (if parent = 1 \<and> newparent = 1 then Inr () else Inl ENOENT)"

definition flush :: "u64 \<Rightarrow> errno + unit" where
  "flush i = (if is_region_inode i \<or> is_generic_inode i then Inr () else Inl ENOENT)"

definition fsync :: "u64 \<Rightarrow> errno + unit" where
  "fsync i = (if is_region_inode i \<or> is_generic_inode i then Inr () else Inl ENOENT)"

text \<open>\<open>getxattr\<close> always replies an error; \<open>listxattr\<close> the size of an empty list.\<close>

definition getxattr :: "u64 \<Rightarrow> errno" where
  "getxattr i = (if is_region_inode i \<or> is_generic_inode i \<or> i = 1 then ENODATA else ENOENT)"

definition listxattr :: "u64 \<Rightarrow> errno + u32" where
  "listxattr i = (if is_region_inode i \<or> is_generic_inode i \<or> i = 1 then Inr 0 else Inl ENOENT)"

text \<open>\<open>readdir\<close>. The reply buffer is fuser's: \<open>fits buf e\<close> says whether \<open>e\<close> still fits behind \<open>buf\<close>;
  \<open>add\<close> returns true, and adds nothing, when it does not.\<close>

type_synonym dir_entry = "u64 \<times> i64 \<times> file_type \<times> string"

definition root_entries :: "(u64 \<times> file_type \<times> string) list" where
  "root_entries = [(1, Directory, ''.''), (1, Directory, ''..''), (pack 0 0, RegularFile, ''r.0.0.mca'')]"

fun add_entries ::
    "(dir_entry list \<Rightarrow> dir_entry \<Rightarrow> bool) \<Rightarrow> i64 \<Rightarrow> nat \<Rightarrow> (u64 \<times> file_type \<times> string) list \<Rightarrow>
     dir_entry list \<Rightarrow> dir_entry list" where
  "add_entries fits offset i [] buf = buf"
| "add_entries fits offset i ((n, k, name) # es) buf =
     (if sint offset \<le> int i then
        let e = (n, of_nat (i + 1), k, name)
        in if fits buf e then add_entries fits offset (i + 1) es (buf @ [e]) else buf
      else add_entries fits offset (i + 1) es buf)"

definition readdir :: "(dir_entry list \<Rightarrow> dir_entry \<Rightarrow> bool) \<Rightarrow> u64 \<Rightarrow> i64 \<Rightarrow> errno + dir_entry list" where
  "readdir fits i offset = (if i \<noteq> 1 then Inl ENOENT else Inr (add_entries fits offset 0 root_entries []))"

text \<open>\<open>offset as u64\<close> keeps the bits of the \<open>i64\<close>.\<close>

definition read_file ::
    "('s, 'c) vf_env \<Rightarrow> u64 \<Rightarrow> i64 \<Rightarrow> u32 \<Rightarrow> ('s, 'c) vf_state \<Rightarrow> bytes \<times> ('s, 'c) vf_state" where
  "read_file E i offset n s =
     (case unpack i of
        Some (x, z) \<Rightarrow> read_at E offset (unat n) x z s
      | None \<Rightarrow> if is_generic_inode i then ([], s) else ([], s))"

definition write_file ::
    "('s, 'c) vf_env \<Rightarrow> u64 \<Rightarrow> i64 \<Rightarrow> bytes \<Rightarrow> ('s, 'c) vf_state \<Rightarrow> (errno + u32) \<times> ('s, 'c) vf_state" where
  "write_file E i offset data s =
     (case unpack i of
        Some (x, z) \<Rightarrow> (Inr (of_nat (length data)), write_at E offset data x z s)
      | None \<Rightarrow>
          if is_generic_inode i then (Inr (of_nat (length data)), s)
          else (Inl ENOENT, s))"

subsection \<open>Printing names\<close>

text \<open>The names the server asks for: \<open>r.x.z.mca\<close> with decimal coordinates.\<close>

fun decimal :: "nat \<Rightarrow> bytes" where
  "decimal n = (if n < 10 then [of_nat (48 + n)] else decimal (n div 10) @ [of_nat (48 + n mod 10)])"

declare decimal.simps [simp del]

definition signed_decimal :: "i32 \<Rightarrow> bytes" where
  "signed_decimal x = (if sint x < 0 then 45 # decimal (nat (- sint x)) else decimal (nat (sint x)))"

definition region_filename :: "i32 \<Rightarrow> i32 \<Rightarrow> bytes" where
  "region_filename x z = [114, 46] @ signed_decimal x @ [46] @ signed_decimal z @ [46, 109, 99, 97]"

lemma digit_byte: "m < 10 \<Longrightarrow> unat (of_nat (48 + m) :: u8) = 48 + m"
  by (simp only: unat_of_nat) simp

lemma digit_between: "m < 10 \<Longrightarrow> between 48 57 (of_nat (48 + m))"
  by (simp only: between_def word_le_nat_alt digit_byte) simp

lemma decimal_digits: "b \<in> set (decimal n) \<Longrightarrow> between 48 57 b"
proof (induction n rule: decimal.induct)
  case (1 n)
  have "n mod 10 < 10" by simp
  with 1 digit_between [of n] digit_between [of "n mod 10"] show ?case
    by (auto simp: decimal.simps [of n] simp del: of_nat_add split: if_splits)
qed

lemma decimal_nonempty: "decimal n \<noteq> []"
  by (simp add: decimal.simps)

lemma digits_value_append:
  "digits_value acc (xs @ ys) = Option.bind (digits_value acc xs) (\<lambda>a. digits_value a ys)"
  by (induction xs arbitrary: acc) simp_all

lemma digits_value_decimal: "digits_value 0 (decimal n) = Some n"
proof (induction n rule: decimal.induct)
  case (1 n)
  have m: "n mod 10 < 10" by simp
  show ?case
  proof (cases "n < 10")
    case True
    then show ?thesis
      using digit_between [of n] digit_byte [of n] by (simp add: decimal.simps [of n] del: of_nat_add)
  next
    case False
    then show ?thesis
      using 1 digit_between [OF m] digit_byte [OF m]
      by (simp add: decimal.simps [of n] digits_value_append del: of_nat_add)
  qed
qed

lemma decimal_not: "\<not> between 48 57 c \<Longrightarrow> c \<notin> set (decimal n)"
  using decimal_digits by blast

lemma not_digits: "\<not> between 48 57 46" "\<not> between 48 57 45" "\<not> between 48 57 43"
  by (simp_all add: between_def)

lemma signed_digits_decimal: "signed_digits (decimal n) = Some (int n)"
proof -
  obtain c cs where d: "decimal n = c # cs" using decimal_nonempty by (cases "decimal n") auto
  then have "c \<noteq> 43" "c \<noteq> 45" using decimal_not not_digits by (metis list.set_intros(1))+
  then show ?thesis using digits_value_decimal [of n] by (simp add: signed_digits_def d)
qed

lemma signed_digits_neg: "signed_digits (45 # decimal n) = Some (- int n)"
  by (simp add: signed_digits_def decimal_nonempty digits_value_decimal)

lemma parse_signed_decimal: "parse_i32 (signed_decimal x) = Some x"
proof -
  have bounds: "- 2147483648 \<le> sint x" "sint x < 2147483648"
    using sint_ge [of x] sint_lt [of x] by simp_all
  have "signed_digits (signed_decimal x) = Some (sint x)"
    by (simp add: signed_decimal_def signed_digits_decimal signed_digits_neg)
  then show ?thesis using bounds by (simp add: parse_i32_def)
qed

lemma split_on_none: "c \<notin> set p \<Longrightarrow> split_on c p = [p]"
  by (induction p) auto

lemma split_on_append: "c \<notin> set p \<Longrightarrow> split_on c (p @ c # rest) = p # split_on c rest"
  by (induction p) auto

lemma signed_decimal_no_dot: "46 \<notin> set (signed_decimal x)"
  using decimal_not [OF not_digits(1)] by (simp add: signed_decimal_def)

lemma split_region_filename:
  "split_on 46 (region_filename x z) = [[114], signed_decimal x, signed_decimal z, [109, 99, 97]]"
proof -
  have "region_filename x z = [114] @ 46 # (signed_decimal x @ 46 # (signed_decimal z @ 46 # [109, 99, 97]))"
    by (simp add: region_filename_def)
  also have "split_on 46 \<dots> = [114] # signed_decimal x # signed_decimal z # split_on 46 [109, 99, 97]"
    by (subst split_on_append, simp)+ (simp add: split_on_append signed_decimal_no_dot)
  finally show ?thesis by simp
qed

lemma parse_printed: "parse_region_filename (region_filename x z) = Some (x, z)"
  by (simp add: parse_region_filename_def split_region_filename parse_signed_decimal)

lemma utf8_ascii: "\<forall>b \<in> set bs. b < 0x80 \<Longrightarrow> utf8 bs"
  by (induction bs) simp_all

lemma region_filename_utf8: "to_str (region_filename x z) = Some (region_filename x z)"
proof -
  have digit: "b < 0x80" if "between 48 57 b" for b
    using that by (simp add: between_def word_less_nat_alt word_le_nat_alt)
  have "\<forall>b \<in> set (signed_decimal y). b < 0x80" for y
    using decimal_digits digit by (auto simp: signed_decimal_def)
  then have "\<forall>b \<in> set (region_filename x z). b < 0x80"
    by (auto simp: region_filename_def)
  from utf8_ascii [OF this] show ?thesis by (simp add: to_str_def)
qed

subsection \<open>Attributes and kinds of inodes\<close>

lemma lookup_cases:
  assumes "lookup req parent name = Inr a"
  obtains x z where "parent = 1" and "to_str name = Some name" and "parse_region_filename name = Some (x, z)"
    and "a = owned_by req (FILE_ATTR_TEMPLATE\<lparr>ino := pack x z\<rparr>)"
proof -
  have p: "parent = 1" and t: "to_str name = Some name"
    using assms by (auto simp: lookup_def to_str_def split: if_splits)
  obtain x z where x: "parse_region_filename name = Some (x, z)"
    using assms p t by (cases "parse_region_filename name") (auto simp: lookup_def)
  show ?thesis by (rule that [OF p t x]) (use assms p t x in \<open>simp add: lookup_def\<close>)
qed

lemma pack_kinds: "is_region_inode (pack x z)" "\<not> is_generic_inode (pack x z)" "pack x z \<noteq> 1"
  using inode.pack_flags [of "(x, z)"] inode.kinds_apart(2) [of "(x, z)"] by simp_all

lemma name_kinds: "is_generic_inode (pack_generic n)" "\<not> is_region_inode (pack_generic n)" "pack_generic n \<noteq> 1"
  "unpack (pack_generic n) = None"
  using inode.name_flags [of n] inode.kinds_apart(3) [of n] inode.unpack_name [of n] by simp_all

lemma add_entries_prefix:
  "int i \<ge> sint off \<Longrightarrow>
     \<exists>k \<le> length es. add_entries fits off i es buf =
       buf @ map (\<lambda>j. (fst (es ! j), of_nat (i + j + 1), snd (es ! j))) [0..<k]"
proof (induction es arbitrary: i buf)
  case (Cons e es)
  obtain n k nm where e: "e = (n, k, nm)" by (cases e)
  let ?e = "(n, of_nat (i + 1), k, nm) :: dir_entry"
  show ?case
  proof (cases "fits buf ?e")
    case True
    obtain m where m: "m \<le> length es" "add_entries fits off (i + 1) es (buf @ [?e]) =
        (buf @ [?e]) @ map (\<lambda>j. (fst (es ! j), of_nat (i + 1 + j + 1), snd (es ! j))) [0..<m]"
      using Cons.IH [of "i + 1" "buf @ [?e]"] Cons.prems by auto
    show ?thesis
    proof (intro exI [of _ "Suc m"] conjI)
      show "Suc m \<le> length (e # es)" using m(1) by simp
      show "add_entries fits off i (e # es) buf =
          buf @ map (\<lambda>j. (fst ((e # es) ! j), of_nat (i + j + 1), snd ((e # es) ! j))) [0..<Suc m]"
        using Cons.prems True m(2) by (simp add: e map_upt_Suc add.assoc add.left_commute del: upt_Suc)
    qed
  next
    case False
    then show ?thesis using Cons.prems by (intro exI [of _ 0]) (simp add: e)
  qed
qed simp

lemma add_entries_skip:
  "int (i + k) \<le> sint off \<Longrightarrow> k \<le> length es \<Longrightarrow>
     add_entries fits off i es buf = add_entries fits off (i + k) (drop k es) buf"
proof (induction k arbitrary: i es)
  case (Suc k)
  then obtain n ki nm es' where es: "es = (n, ki, nm) # es'" by (cases es) auto
  show ?case using Suc.IH [of "i + 1" es'] Suc.prems by (simp add: es)
qed simp

text \<open>The directory entry at position \<open>j\<close>, its cookie the position of the next.\<close>

definition root_entry :: "nat \<Rightarrow> dir_entry" where
  "root_entry j = (fst (root_entries ! j), of_nat (j + 1), snd (root_entries ! j))"

lemma add_entries_always:
  "int i \<ge> sint off \<Longrightarrow> add_entries (\<lambda>_ _. True) off i es buf =
     buf @ map (\<lambda>j. (fst (es ! j), of_nat (i + j + 1), snd (es ! j))) [0..<length es]"
proof (induction es arbitrary: i buf)
  case (Cons e es)
  then show ?case
    by (cases e) (simp add: map_upt_Suc add.assoc add.left_commute del: upt_Suc)
qed simp

lemma readdir_from:
  assumes "off \<le> 3"
  shows "readdir fits 1 (of_nat off) = Inr (add_entries fits (of_nat off) off (drop off root_entries) [])"
proof -
  have "sint (of_nat off :: i64) = int off"
    using assms by (simp add: sint_eq_unat64 unat_of_nat del: of_nat_unat)
  then show ?thesis
    using add_entries_skip [of 0 off "of_nat off" root_entries fits "[]"] assms
    by (simp add: readdir_def root_entries_def)
qed

lemma sint_small_offset: "off \<le> 3 \<Longrightarrow> sint (of_nat off :: i64) = int off"
  by (simp add: sint_eq_unat64 unat_of_nat del: of_nat_unat)

lemma map_shift: "map f [off..<off + k] = map (\<lambda>j. f (off + j)) [0..<k]"
  by (intro nth_equalityI) simp_all

subsection \<open>Properties\<close>

text \<open>C32: the name of a region, printed with its decimal coordinates, parses back to them, and its
  lookup succeeds with the region's inode; that inode unpacks to the same region exactly when both
  coordinates fit the 24 bits an inode has for them.\<close>

theorem lookup_by_name:
  "parse_region_filename (region_filename x z) = Some (x, z) \<and>
   (\<exists>a. lookup req 1 (region_filename x z) = Inr a \<and> ino a = pack x z \<and>
      (unpack (ino a) = Some (x, z) \<longleftrightarrow> in_range x \<and> in_range z))"
  by (simp add: parse_printed lookup_def region_filename_utf8 owned_by_def unpack_pack_wrap wrap24_eq_iff)

text \<open>C33: the handlers agree on a file found by name: \<open>getattr\<close>, \<open>setattr\<close> and \<open>create\<close> all answer the
  attributes \<open>lookup\<close> gave, those of a regular file that ends where the last slot ends.\<close>

theorem attributes_agree:
  assumes "lookup req parent name = Inr a"
  shows "getattr req (ino a) = Inr a \<and> setattr req (ino a) = Inr a \<and> create req parent name = Inr a \<and>
    access (ino a) = Inr () \<and> kind a = RegularFile \<and> unat (fsize a) = 8192 + 1024 * 262144"
  using assms
proof (cases rule: lookup_cases)
  case (1 x z)
  then show ?thesis
    by (simp add: getattr_def setattr_def create_def access_def owned_by_def Let_def pack_kinds
        FILE_ATTR_TEMPLATE_def region_consts)
qed

theorem attributes_agree_witness:
  "\<exists>a. lookup \<lparr>req_uid = 7, req_gid = 8\<rparr> 1 (region_filename 3 (- 4)) = Inr a \<and> ino a = pack 3 (- 4) \<and>
     getattr \<lparr>req_uid = 7, req_gid = 8\<rparr> (pack 3 (- 4)) = Inr a"
proof -
  let ?req = "\<lparr>req_uid = 7, req_gid = 8\<rparr>"
  obtain a where a: "lookup ?req 1 (region_filename 3 (- 4)) = Inr a" and i: "ino a = pack 3 (- 4)"
    by (simp add: lookup_def region_filename_utf8 parse_printed owned_by_def)
  with attributes_agree [OF a] show ?thesis by auto
qed

text \<open>C34: reading the directory can be cut anywhere and resumed: whatever the buffer takes, a call
  from cookie \<open>off\<close> answers a gapless run of entries that starts with entry \<open>off\<close>, each with the
  cookie of the next; a buffer with room gets all the rest.\<close>

theorem readdir_resumes:
  assumes "off \<le> 3"
  shows "(\<exists>m. off \<le> m \<and> m \<le> 3 \<and> readdir fits 1 (of_nat off) = Inr (map root_entry [off..<m])) \<and>
    readdir (\<lambda>_ _. True) 1 (of_nat off) = Inr (map root_entry [off..<3])"
proof -
  let ?es = "drop off root_entries"
  have len: "length ?es = 3 - off" by (simp add: root_entries_def)
  have le: "sint (of_nat off :: i64) \<le> int off" using sint_small_offset [OF assms] by simp
  have entry: "(fst (?es ! j), of_nat (off + j + 1), snd (?es ! j)) = root_entry (off + j)" if "j < 3 - off" for j
    using that by (simp add: root_entry_def root_entries_def)
  obtain k where k: "k \<le> 3 - off"
    and run: "add_entries fits (of_nat off) off ?es [] = map (\<lambda>j. (fst (?es ! j), of_nat (off + j + 1), snd (?es ! j))) [0..<k]"
    using add_entries_prefix [OF le, of ?es fits "[]"] unfolding len by auto
  note run
  also have "map (\<lambda>j. (fst (?es ! j), of_nat (off + j + 1), snd (?es ! j))) [0..<k] = map root_entry [off..<off + k]"
    unfolding map_shift
  proof (rule map_cong [OF refl], rule entry)
    show "j < 3 - off" if "j \<in> set [0..<k]" for j using that k(1) by simp
  qed
  finally have one: "add_entries fits (of_nat off) off ?es [] = map root_entry [off..<off + k]" .
  have "add_entries (\<lambda>_ _. True) (of_nat off) off ?es [] =
      map (\<lambda>j. (fst (?es ! j), of_nat (off + j + 1), snd (?es ! j))) [0..<3 - off]"
    using add_entries_always [OF le, of ?es "[]"] unfolding len by simp
  also have "\<dots> = map root_entry [off..<off + (3 - off)]"
    unfolding map_shift
  proof (rule map_cong [OF refl], rule entry)
    show "j < 3 - off" if "j \<in> set [0..<3 - off]" for j using that by simp
  qed
  finally have all: "add_entries (\<lambda>_ _. True) (of_nat off) off ?es [] = map root_entry [off..<3]"
    using assms by simp
  show ?thesis
    unfolding readdir_from [OF assms] one all
    using k(1) assms by (intro conjI exI [of _ "off + k"]) simp_all
qed

theorem readdir_resumes_witness:
  "readdir (\<lambda>_ _. True) 1 (of_nat 2) = Inr [root_entry 2]"
  using readdir_resumes [of 2] by (simp add: upt_rec)

text \<open>An inode that is neither the root's, nor a region's, nor a generic file's is refused by
  every handler, except \<open>read\<close>, which answers with no bytes; and the root directory, which \<open>getattr\<close>
  knows, is refused by \<open>setattr\<close>, \<open>flush\<close> and \<open>fsync\<close>.\<close>

lemma unknown_inodes:
  assumes "\<not> is_region_inode i" and "\<not> is_generic_inode i"
  shows "setattr req i = Inl ENOENT \<and> flush i = Inl ENOENT \<and> fsync i = Inl ENOENT \<and>
    write_file E i off data s = (Inl ENOENT, s) \<and> read_file E i off n s = ([], s) \<and>
    (if i = 1 then getattr req i = Inr (owned_by req DIR_ATTR_TEMPLATE) \<and> access i = Inr () \<and>
        getxattr i = ENODATA \<and> listxattr i = Inr 0
     else getattr req i = Inl ENOENT \<and> access i = Inl ENOENT \<and> getxattr i = ENOENT \<and> listxattr i = Inl ENOENT)"
  using assms
  by (simp add: setattr_def flush_def fsync_def write_file_def read_file_def unpack_None_iff [THEN iffD2]
      getattr_def access_def getxattr_def listxattr_def)

text \<open>Any other file is a black hole: a name that is not a region's can be created and written, with
  every byte reported as written, but the file has size 0, reads as empty, changes nothing, and a
  lookup does not find it.\<close>

lemma generic_files:
  assumes "to_str name = Some name" and "parse_region_filename name = None"
  shows "\<exists>a. create req 1 name = Inr a \<and> getattr req (ino a) = Inr a \<and> fsize a = 0 \<and>
    write_file E (ino a) off data s = (Inr (of_nat (length data)), s) \<and>
    read_file E (ino a) off n s = ([], s) \<and> lookup req 1 name = Inl ENOENT"
  using assms name_kinds [of name]
  by (simp add: create_def lookup_def getattr_def write_file_def read_file_def owned_by_def Let_def)

end
