(* ===== verification/Builder.thy ===== *)
theory Builder
  imports Virtual_File "HOL-Library.Product_Lexorder"
begin

text \<open>
  \<open>hoppermc-gen/src/builder.rs\<close>: the \<open>ChunkBuilder\<close>, two hash maps of block names that \<open>build\<close> turns
  into the sections of a chunk. The sections, the block registry and the serialiser are Pumpkin's:
  the fields of \<open>pumpkin\<close>, with what is relied on in \<open>pumpkin_ok\<close>. A hash map is a map with finite
  domain; the order in which it is iterated is not defined, so \<open>hash_iter\<close> gives one for each call.
\<close>

subsection \<open>The builder\<close>

record chunk_builder =
  custom_blocks :: "u8 \<times> i32 \<times> u8 \<rightharpoonup> string"
  full_layers :: "i32 \<rightharpoonup> string"

definition builder_new :: chunk_builder where
  "builder_new = \<lparr>custom_blocks = Map.empty, full_layers = Map.empty\<rparr>"

definition set_block :: "u8 \<Rightarrow> i32 \<Rightarrow> u8 \<Rightarrow> string \<Rightarrow> chunk_builder \<Rightarrow> chunk_builder" where
  "set_block x y z name b =
     (if x < 16 \<and> z < 16 then b\<lparr>custom_blocks := (custom_blocks b)((x, y, z) \<mapsto> name)\<rparr> else b)"

definition fill_layer :: "i32 \<Rightarrow> string \<Rightarrow> chunk_builder \<Rightarrow> chunk_builder" where
  "fill_layer y name b =
     b\<lparr>full_layers := (full_layers b)(y \<mapsto> name),
       custom_blocks := (\<lambda>(x, by, z). if by \<noteq> y then custom_blocks b (x, by, z) else None)\<rparr>"

subsection \<open>Pumpkin\<close>

text \<open>\<open>ChunkData\<close>: the sections, the coordinates and the light of every section. Ticks and block
  entities are always empty here and left out.\<close>

datatype chunk_status = Full

record ('sec, 'hm, 'light) chunk_data =
  sections_of :: 'sec
  heightmap :: 'hm
  chunk_x :: i32
  chunk_z :: i32
  sky_light :: "'light list"
  block_light :: "'light list"
  status :: chunk_status
  dirty :: bool

record ('sec, 'hm, 'light) pumpkin =
  sections_new :: "nat \<Rightarrow> i32 \<Rightarrow> 'sec"
  set_block_absolute_y :: "nat \<Rightarrow> i32 \<Rightarrow> nat \<Rightarrow> u16 \<Rightarrow> 'sec \<Rightarrow> 'sec"
  from_registry_key :: "string \<Rightarrow> u16 option"
  heightmap_default :: 'hm
  light_default :: 'light
  to_bytes :: "('sec, 'hm, 'light) chunk_data \<Rightarrow> bytes option"

text \<open>The \<open>ChunkData\<close> that \<open>build\<close> makes of its sections, and its serialisation.\<close>

definition built_chunk ::
    "('sec, 'hm, 'light) pumpkin \<Rightarrow> 'sec \<Rightarrow> i32 \<Rightarrow> i32 \<Rightarrow> ('sec, 'hm, 'light) chunk_data" where
  "built_chunk P s x z = \<lparr>sections_of = s, heightmap = heightmap_default P, chunk_x = x, chunk_z = z,
     sky_light = replicate 24 (light_default P), block_light = replicate 24 (light_default P),
     status = Full, dirty = False\<rparr>"

definition chunk_to_bytes :: "('sec, 'hm, 'light) pumpkin \<Rightarrow> 'sec \<Rightarrow> i32 \<Rightarrow> i32 \<Rightarrow> bytes option" where
  "chunk_to_bytes P s x z = to_bytes P (built_chunk P s x z)"

text \<open>A position of the world in a chunk: 16 by 16 columns, 24 sections from \<open>y = -64\<close>.\<close>

type_synonym block_pos = "nat \<times> i32 \<times> nat"

definition in_world :: "block_pos \<Rightarrow> bool" where
  "in_world p = (case p of (x, y, z) \<Rightarrow> x < 16 \<and> z < 16 \<and> - 64 \<le> sint y \<and> sint y < 320)"

text \<open>Setting a block of the world sets it and no other; what is serialised are the chunk's
  coordinates and its blocks.\<close>

definition pumpkin_ok :: "('sec, 'hm, 'light) pumpkin \<Rightarrow> ('sec \<Rightarrow> block_pos \<Rightarrow> u16) \<Rightarrow> bool" where
  "pumpkin_ok P block \<longleftrightarrow>
     (\<forall>x y z n s. in_world (x, y, z) \<longrightarrow>
        block (set_block_absolute_y P x y z n s) = (block s)((x, y, z) := n)) \<and>
     (\<forall>s s' x z. block s = block s' \<longrightarrow> chunk_to_bytes P s x z = chunk_to_bytes P s' x z)"

record hash_iter =
  iter_layers :: "nat \<Rightarrow> (i32 \<rightharpoonup> string) \<Rightarrow> (i32 \<times> string) list"
  iter_custom :: "nat \<Rightarrow> (u8 \<times> i32 \<times> u8 \<rightharpoonup> string) \<Rightarrow> ((u8 \<times> i32 \<times> u8) \<times> string) list"

definition enumerates :: "('k \<times> 'v) list \<Rightarrow> ('k \<rightharpoonup> 'v) \<Rightarrow> bool" where
  "enumerates xs m \<longleftrightarrow> distinct (map fst xs) \<and> map_of xs = m"

definition hash_iter_ok :: "hash_iter \<Rightarrow> bool" where
  "hash_iter_ok I \<longleftrightarrow>
     (\<forall>t m. finite (dom m) \<longrightarrow> enumerates (iter_layers I t m) m) \<and>
     (\<forall>t m. finite (dom m) \<longrightarrow> enumerates (iter_custom I t m) m)"

subsection \<open>\<open>build\<close>\<close>

text \<open>\<open>name.strip_prefix("minecraft:").unwrap_or(name)\<close>.\<close>

definition name_key :: "string \<Rightarrow> string" where
  "name_key name = (if take 10 name = ''minecraft:'' then drop 10 name else name)"

definition apply_layer :: "('sec, 'hm, 'light) pumpkin \<Rightarrow> i32 \<times> string \<Rightarrow> 'sec \<Rightarrow> 'sec" where
  "apply_layer P = (\<lambda>(y, name) s.
     case from_registry_key P (name_key name) of
       None \<Rightarrow> s
     | Some state_id \<Rightarrow>
         fold (\<lambda>x s. fold (\<lambda>z s. set_block_absolute_y P x y z state_id s) [0..<16] s) [0..<16] s)"

definition apply_custom :: "('sec, 'hm, 'light) pumpkin \<Rightarrow> (u8 \<times> i32 \<times> u8) \<times> string \<Rightarrow> 'sec \<Rightarrow> 'sec" where
  "apply_custom P = (\<lambda>((x, y, z), name) s.
     case from_registry_key P (name_key name) of
       None \<Rightarrow> s
     | Some state_id \<Rightarrow> set_block_absolute_y P (unat x) y (unat z) state_id s)"

definition built_sections :: "('sec, 'hm, 'light) pumpkin \<Rightarrow> hash_iter \<Rightarrow> nat \<Rightarrow> chunk_builder \<Rightarrow> 'sec" where
  "built_sections P I t b =
     fold (apply_custom P) (iter_custom I t (custom_blocks b))
       (fold (apply_layer P) (iter_layers I t (full_layers b)) (sections_new P 24 (- 64)))"

definition build ::
    "('sec, 'hm, 'light) pumpkin \<Rightarrow> hash_iter \<Rightarrow> nat \<Rightarrow> chunk_builder \<Rightarrow> i32 \<Rightarrow> i32 \<Rightarrow> gen_error + bytes" where
  "build P I t b x z =
     (case chunk_to_bytes P (built_sections P I t b) x z of
        None \<Rightarrow> Inl Generation_failed
      | Some bytes \<Rightarrow> Inr bytes)"

subsection \<open>What is built\<close>

text \<open>The id a name gives a position that had \<open>old\<close>.\<close>

definition block_id :: "('sec, 'hm, 'light) pumpkin \<Rightarrow> string option \<Rightarrow> u16 \<Rightarrow> u16" where
  "block_id P name old =
     (case Option.bind name (\<lambda>n. from_registry_key P (name_key n)) of None \<Rightarrow> old | Some n \<Rightarrow> n)"

text \<open>Every position of the builder lies in the world.\<close>

definition in_range_builder :: "chunk_builder \<Rightarrow> bool" where
  "in_range_builder b \<longleftrightarrow>
     (\<forall>y \<in> dom (full_layers b). - 64 \<le> sint y \<and> sint y < 320) \<and>
     (\<forall>(x, y, z) \<in> dom (custom_blocks b). in_world (unat x, y, unat z)) \<and>
     finite (dom (full_layers b)) \<and> finite (dom (custom_blocks b))"

lemma pumpkin_set:
  "pumpkin_ok P block \<Longrightarrow> in_world (x, y, z) \<Longrightarrow>
     block (set_block_absolute_y P x y z n s) = (block s)((x, y, z) := n)"
  unfolding pumpkin_ok_def by blast

lemma row_blocks:
  assumes "pumpkin_ok P block" and "x < 16" and "- 64 \<le> sint y" "sint y < 320" and "\<forall>z \<in> set zs. z < 16"
  shows "block (fold (\<lambda>z s. set_block_absolute_y P x y z n s) zs s) =
    (\<lambda>p. if fst p = x \<and> fst (snd p) = y \<and> snd (snd p) \<in> set zs then n else block s p)"
  using assms(5)
proof (induction zs arbitrary: s)
  case (Cons z zs)
  then have "in_world (x, y, z)" using assms by (simp add: in_world_def)
  with Cons show ?case by (auto simp: pumpkin_set [OF assms(1)] fun_eq_iff)
qed simp

lemma layer_blocks:
  assumes "pumpkin_ok P block" and "- 64 \<le> sint y" "sint y < 320" and "\<forall>x \<in> set xs. x < 16"
  shows "block (fold (\<lambda>x s. fold (\<lambda>z s. set_block_absolute_y P x y z n s) [0..<16] s) xs s) =
    (\<lambda>p. if fst p \<in> set xs \<and> fst (snd p) = y \<and> snd (snd p) < 16 then n else block s p)"
  using assms(4)
proof (induction xs arbitrary: s)
  case (Cons x xs)
  have row: "block (fold (\<lambda>z s. set_block_absolute_y P x y z n s) [0..<16] s) =
      (\<lambda>p. if fst p = x \<and> fst (snd p) = y \<and> snd (snd p) \<in> set [0..<16] then n else block s p)"
    using Cons.prems by (intro row_blocks [OF assms(1) _ assms(2,3)]) simp_all
  have "\<forall>x \<in> set xs. x < 16" using Cons.prems by simp
  note rest = Cons.IH [OF this, of "fold (\<lambda>z s. set_block_absolute_y P x y z n s) [0..<16] s"]
  show ?case
    unfolding fold.simps o_apply rest row by (auto simp: fun_eq_iff)
qed simp

lemma apply_layer_blocks:
  assumes "pumpkin_ok P block" and "- 64 \<le> sint y" "sint y < 320" and "in_world p"
  shows "block (apply_layer P (y, name) s) p =
    (if fst (snd p) = y then block_id P (Some name) (block s p) else block s p)"
proof (cases "from_registry_key P (name_key name)")
  case (Some n)
  have "\<forall>x \<in> set [0..<16]. x < (16 :: nat)" by simp
  from layer_blocks [OF assms(1-3) this, of n s] Some assms(4) show ?thesis
    by (auto simp: apply_layer_def block_id_def in_world_def split: prod.splits)
qed (simp add: apply_layer_def block_id_def)

lemma apply_custom_blocks:
  assumes "pumpkin_ok P block" and "in_world (unat x, y, unat z)"
  shows "block (apply_custom P ((x, y, z), name) s) p =
    (if p = (unat x, y, unat z) then block_id P (Some name) (block s p) else block s p)"
  using pumpkin_set [OF assms]
  by (cases "from_registry_key P (name_key name)") (simp_all add: apply_custom_def block_id_def)

lemma layers_blocks:
  assumes ok: "pumpkin_ok P block" and "distinct (map fst ls)" and "\<forall>y \<in> fst ` set ls. - 64 \<le> sint y \<and> sint y < 320"
    and p: "in_world p"
  shows "block (fold (apply_layer P) ls s) p = block_id P (map_of ls (fst (snd p))) (block s p)"
  using assms(2,3)
proof (induction ls arbitrary: s)
  case (Cons l ls)
  obtain y name where l: "l = (y, name)" by (cases l)
  have y: "- 64 \<le> sint y" "sint y < 320" using Cons.prems(2) l by auto
  have "block (fold (apply_layer P) ls (apply_layer P l s)) p =
      block_id P (map_of ls (fst (snd p))) (block (apply_layer P l s) p)"
    using Cons.prems by (intro Cons.IH) auto
  moreover have "map_of ls y = None" using Cons.prems(1) l by (simp add: map_of_eq_None_iff)
  ultimately show ?case
    using apply_layer_blocks [OF ok y p, of name s] l by (auto simp: block_id_def)
qed (simp add: block_id_def)

lemma unat_eq_u8: "unat (a :: u8) = unat (b :: u8) \<longleftrightarrow> a = b"
  by (simp add: word_unat_eq_iff)

lemma customs_blocks:
  assumes ok: "pumpkin_ok P block" and "distinct (map fst cs)"
    and "\<forall>(x, y, z) \<in> fst ` set cs. in_world (unat x, y, unat z)"
  shows "block (fold (apply_custom P) cs s) (unat px, py, unat pz) =
    block_id P (map_of cs (px, py, pz)) (block s (unat px, py, unat pz))"
  using assms(2,3)
proof (induction cs arbitrary: s)
  case (Cons c cs)
  obtain x y z name where c: "c = ((x, y, z), name)" by (metis prod.exhaust)
  have w: "in_world (unat x, y, unat z)" using Cons.prems(2) c by auto
  have "block (fold (apply_custom P) cs (apply_custom P c s)) (unat px, py, unat pz) =
      block_id P (map_of cs (px, py, pz)) (block (apply_custom P c s) (unat px, py, unat pz))"
    using Cons.prems by (intro Cons.IH) auto
  moreover have "map_of cs (x, y, z) = None" using Cons.prems(1) c by (simp add: map_of_eq_None_iff)
  ultimately show ?case
    using apply_custom_blocks [OF ok w, of name s "(unat px, py, unat pz)"] c
    by (simp add: unat_eq_u8) (auto simp: block_id_def)
qed (simp add: block_id_def)

text \<open>The blocks of a build: the custom block, over the layer's, over what the sections start
  with. Nothing depends on the order in which the hash maps are iterated.\<close>

lemma built_blocks:
  assumes ok: "pumpkin_ok P block" and iter: "hash_iter_ok I" and b: "in_range_builder b"
    and p: "in_world (unat x, y, unat z)"
  shows "block (built_sections P I t b) (unat x, y, unat z) =
    block_id P (custom_blocks b (x, y, z))
      (block_id P (full_layers b y) (block (sections_new P 24 (- 64)) (unat x, y, unat z)))"
proof -
  let ?ls = "iter_layers I t (full_layers b)" and ?cs = "iter_custom I t (custom_blocks b)"
  have ls: "distinct (map fst ?ls)" "map_of ?ls = full_layers b"
    and cs: "distinct (map fst ?cs)" "map_of ?cs = custom_blocks b"
    using iter b by (simp_all add: hash_iter_ok_def enumerates_def in_range_builder_def)
  have "fst ` set ?ls = dom (full_layers b)" "fst ` set ?cs = dom (custom_blocks b)"
    using ls(2) cs(2) by (metis dom_map_of_conv_image_fst)+
  then have "\<forall>y \<in> fst ` set ?ls. - 64 \<le> sint y \<and> sint y < 320"
    and "\<forall>(x, y, z) \<in> fst ` set ?cs. in_world (unat x, y, unat z)"
    using b by (simp_all add: in_range_builder_def)
  then show ?thesis
    unfolding built_sections_def
    by (simp add: customs_blocks [OF ok cs(1)] layers_blocks [OF ok ls(1) _ p] ls(2) cs(2))
qed

lemma outside_layer:
  assumes ok: "pumpkin_ok P block" and y: "- 64 \<le> sint y" "sint y < 320" and p: "\<not> in_world p"
  shows "block (apply_layer P (y, name) s) p = block s p"
proof (cases "from_registry_key P (name_key name)")
  case (Some n)
  have "\<forall>x \<in> set [0..<16]. x < (16 :: nat)" by simp
  from layer_blocks [OF ok y this, of n s] Some p y show ?thesis
    by (auto simp: apply_layer_def in_world_def split: prod.splits)
qed (simp add: apply_layer_def)

lemma outside_custom:
  assumes "pumpkin_ok P block" and "in_world (unat x, y, unat z)" and "\<not> in_world p"
  shows "block (apply_custom P ((x, y, z), name) s) p = block s p"
  using apply_custom_blocks [OF assms(1,2), of name s p] assms(2,3) by auto

lemma outside_fold:
  assumes "\<And>a s. a \<in> set xs \<Longrightarrow> block (f a s) p = block s p"
  shows "block (fold f xs s) p = block s p"
  using assms by (induction xs arbitrary: s) simp_all

lemma built_outside:
  assumes ok: "pumpkin_ok P block" and iter: "hash_iter_ok I" and b: "in_range_builder b" and p: "\<not> in_world p"
  shows "block (built_sections P I t b) p = block (sections_new P 24 (- 64)) p"
proof -
  let ?ls = "iter_layers I t (full_layers b)" and ?cs = "iter_custom I t (custom_blocks b)"
  have "map_of ?ls = full_layers b" "map_of ?cs = custom_blocks b"
    using iter b by (simp_all add: hash_iter_ok_def enumerates_def in_range_builder_def)
  then have dom: "fst ` set ?ls = dom (full_layers b)" "fst ` set ?cs = dom (custom_blocks b)"
    by (metis dom_map_of_conv_image_fst)+
  have ls: "- 64 \<le> sint (fst l) \<and> sint (fst l) < 320" if "l \<in> set ?ls" for l
    using b imageI [OF that, of fst] unfolding dom(1) in_range_builder_def by blast
  have cs: "case fst c of (x, y, z) \<Rightarrow> in_world (unat x, y, unat z)" if "c \<in> set ?cs" for c
    using b imageI [OF that, of fst] unfolding dom(2) in_range_builder_def by fastforce
  have "block (apply_custom P c s) p = block s p" if "c \<in> set ?cs" for c s
    using outside_custom [OF ok _ p] cs [OF that] by (cases c) auto
  moreover have "block (apply_layer P l s) p = block s p" if "l \<in> set ?ls" for l s
    using outside_layer [OF ok _ _ p] ls [OF that] by (cases l) auto
  ultimately show ?thesis unfolding built_sections_def by (simp add: outside_fold)
qed

subsection \<open>Building is painting\<close>

text \<open>The calls of a client, on the builder and, as the reference, painted at once.\<close>

datatype paint = Set_block u8 i32 u8 string | Fill_layer i32 string

fun run_paint :: "paint \<Rightarrow> chunk_builder \<Rightarrow> chunk_builder" where
  "run_paint (Set_block x y z name) b = set_block x y z name b"
| "run_paint (Fill_layer y name) b = fill_layer y name b"

fun paint_now :: "('sec, 'hm, 'light) pumpkin \<Rightarrow> paint \<Rightarrow> 'sec \<Rightarrow> 'sec" where
  "paint_now P (Set_block x y z name) s = (if x < 16 \<and> z < 16 then apply_custom P ((x, y, z), name) s else s)"
| "paint_now P (Fill_layer y name) s = apply_layer P (y, name) s"

text \<open>Calls in the world's height and with names of the registry.\<close>

definition registered :: "('sec, 'hm, 'light) pumpkin \<Rightarrow> string \<Rightarrow> bool" where
  "registered P name \<longleftrightarrow> from_registry_key P (name_key name) \<noteq> None"

fun paint_ok :: "('sec, 'hm, 'light) pumpkin \<Rightarrow> paint \<Rightarrow> bool" where
  "paint_ok P (Set_block x y z name) \<longleftrightarrow> - 64 \<le> sint y \<and> sint y < 320 \<and> registered P name"
| "paint_ok P (Fill_layer y name) \<longleftrightarrow> - 64 \<le> sint y \<and> sint y < 320 \<and> registered P name"

definition name_at :: "chunk_builder \<Rightarrow> u8 \<Rightarrow> i32 \<Rightarrow> u8 \<Rightarrow> string option" where
  "name_at b x y z = (case custom_blocks b (x, y, z) of Some n \<Rightarrow> Some n | None \<Rightarrow> full_layers b y)"

definition painted_builder :: "('sec, 'hm, 'light) pumpkin \<Rightarrow> chunk_builder \<Rightarrow> bool" where
  "painted_builder P b \<longleftrightarrow> in_range_builder b \<and>
     (\<forall>n \<in> ran (full_layers b) \<union> ran (custom_blocks b). registered P n)"

lemma painted_new: "painted_builder P builder_new"
  by (simp add: painted_builder_def builder_new_def in_range_builder_def)

lemma painted_less:
  assumes b: "painted_builder P b" and le: "custom_blocks b' \<subseteq>\<^sub>m custom_blocks b"
    and y: "full_layers b' = (full_layers b)(y \<mapsto> name)" "- 64 \<le> sint y" "sint y < 320" "registered P name"
  shows "painted_builder P b'"
proof -
  have dom: "dom (custom_blocks b') \<subseteq> dom (custom_blocks b)" by (rule map_le_implies_dom_le [OF le])
  have ran: "ran (custom_blocks b') \<subseteq> ran (custom_blocks b)"
    using le unfolding map_le_def ran_def dom_def by (smt (verit) mem_Collect_eq option.discI subsetI)
  have layers: "\<forall>y' \<in> dom (full_layers b'). - 64 \<le> sint y' \<and> sint y' < 320" "finite (dom (full_layers b'))"
    using b y by (simp_all add: painted_builder_def in_range_builder_def)
  have "ran (full_layers b') \<subseteq> insert name (ran (full_layers b))"
    unfolding y(1) by (auto simp: ran_def)
  then have "\<forall>n \<in> ran (full_layers b') \<union> ran (custom_blocks b'). registered P n"
    using b ran y(4) unfolding painted_builder_def by blast
  moreover have "\<forall>p \<in> dom (custom_blocks b'). case p of (x, y, z) \<Rightarrow> in_world (unat x, y, unat z)"
    using b dom unfolding painted_builder_def in_range_builder_def by blast
  moreover have "finite (dom (custom_blocks b'))"
    using b finite_subset [OF dom] by (simp add: painted_builder_def in_range_builder_def)
  ultimately show ?thesis using layers by (simp add: painted_builder_def in_range_builder_def)
qed

lemma painted_run:
  assumes "painted_builder P b" and "paint_ok P c"
  shows "painted_builder P (run_paint c b)"
proof (cases c)
  case (Set_block x y z name)
  have "in_world (unat x, y, unat z)" if "x < 16" "z < 16"
    using that assms(2) Set_block by (simp add: in_world_def word_less_nat_alt)
  then show ?thesis
    using assms Set_block
    by (auto simp: painted_builder_def in_range_builder_def set_block_def ran_def split: if_splits)
next
  case (Fill_layer y name)
  have "custom_blocks (fill_layer y name b) \<subseteq>\<^sub>m custom_blocks b"
    by (auto simp: map_le_def fill_layer_def split: if_splits)
  then show ?thesis
    using assms Fill_layer by (auto intro!: painted_less [of P b _ y name] simp: fill_layer_def)
qed

lemma block_id_registered: "registered P n \<Longrightarrow> block_id P (Some n) old = block_id P (Some n) new"
  by (auto simp: registered_def block_id_def)

lemma built_names:
  assumes "pumpkin_ok P block" and "hash_iter_ok I" and b: "painted_builder P b"
    and "in_world (unat x, y, unat z)"
  shows "block (built_sections P I t b) (unat x, y, unat z) =
    block_id P (name_at b x y z) (block (sections_new P 24 (- 64)) (unat x, y, unat z))"
proof -
  have "in_range_builder b" using b by (simp add: painted_builder_def)
  note built = built_blocks [OF assms(1,2) this assms(4)]
  show ?thesis
  proof (cases "custom_blocks b (x, y, z)")
    case (Some n)
    then have "registered P n" using b by (auto simp: painted_builder_def ran_def)
    then show ?thesis using built Some block_id_registered by (simp add: name_at_def)
  next
    case None
    then show ?thesis using built by (simp add: name_at_def block_id_def)
  qed
qed

lemma name_at_new: "name_at builder_new x y z = None"
  by (simp add: name_at_def builder_new_def)

lemma apply_custom_id:
  "from_registry_key P (name_key name) = None \<Longrightarrow> apply_custom P ((x, y, z), name) s = s"
  by (simp add: apply_custom_def)

lemma name_at_set:
  "cx < 16 \<Longrightarrow> cz < 16 \<Longrightarrow> name_at (set_block cx cy cz name b) x y z =
     (if (x, y, z) = (cx, cy, cz) then Some name else name_at b x y z)"
  by (simp add: set_block_def name_at_def split: option.split)

lemma name_at_fill:
  "name_at (fill_layer cy name b) x y z = (if y = cy then Some name else name_at b x y z)"
  by (simp add: fill_layer_def name_at_def split: option.split)

lemma paint_now_block:
  assumes ok: "pumpkin_ok P block" and c: "paint_ok P c" and p: "in_world (unat x, y, unat z)"
    and s: "block s (unat x, y, unat z) = block_id P (name_at b x y z) old"
  shows "block (paint_now P c s) (unat x, y, unat z) = block_id P (name_at (run_paint c b) x y z) old"
proof (cases c)
  case (Set_block cx cy cz name)
  have xz: "x < 16" "z < 16" using p by (simp_all add: in_world_def word_less_nat_alt)
  show ?thesis
  proof (cases "cx < 16 \<and> cz < 16")
    case True
    then have w: "in_world (unat cx, cy, unat cz)"
      using c Set_block by (simp add: in_world_def word_less_nat_alt)
    have "registered P name" using c Set_block by simp
    then show ?thesis
      using True Set_block s apply_custom_blocks [OF ok w, of name s "(unat x, y, unat z)"]
        block_id_registered [of P name]
      by (auto simp: name_at_set unat_eq_u8)
  next
    case False
    then show ?thesis using Set_block s xz by (auto simp: set_block_def)
  qed
next
  case (Fill_layer cy name)
  then have y: "- 64 \<le> sint cy" "sint cy < 320" and r: "registered P name" using c by simp_all
  show ?thesis
    using Fill_layer s apply_layer_blocks [OF ok y p, of name s] block_id_registered [OF r]
    by (auto simp: name_at_fill)
qed

lemma paint_now_outside:
  assumes "pumpkin_ok P block" and "paint_ok P c" and "\<not> in_world p"
  shows "block (paint_now P c s) p = block s p"
proof (cases c)
  case (Set_block x y z name)
  have "in_world (unat x, y, unat z)" if "x < 16" "z < 16"
    using that assms(2) Set_block by (simp add: in_world_def word_less_nat_alt)
  then show ?thesis using Set_block outside_custom [OF assms(1) _ assms(3)] by simp
next
  case (Fill_layer y name)
  then show ?thesis using assms outside_layer [OF assms(1) _ _ assms(3)] by simp
qed

lemma painted_state:
  assumes ok: "pumpkin_ok P block" and "list_all (paint_ok P) cs" and "painted_builder P b"
    and "\<And>x y z. in_world (unat x, y, unat z) \<Longrightarrow>
      block s (unat x, y, unat z) = block_id P (name_at b x y z) (block s0 (unat x, y, unat z))"
    and "\<And>p. \<not> in_world p \<Longrightarrow> block s p = block s0 p"
  shows "painted_builder P (fold run_paint cs b) \<and>
    (\<forall>x y z. in_world (unat x, y, unat z) \<longrightarrow>
      block (fold (paint_now P) cs s) (unat x, y, unat z) =
        block_id P (name_at (fold run_paint cs b) x y z) (block s0 (unat x, y, unat z))) \<and>
    (\<forall>p. \<not> in_world p \<longrightarrow> block (fold (paint_now P) cs s) p = block s0 p)"
  using assms(2-)
proof (induction cs arbitrary: b s)
  case (Cons c cs)
  have c: "paint_ok P c" and cs: "list_all (paint_ok P) cs" using Cons.prems(1) by simp_all
  show ?case
    unfolding fold.simps o_apply
    by (rule Cons.IH [OF cs painted_run [OF Cons.prems(2) c]])
      (simp_all add: paint_now_block [OF ok c _ Cons.prems(3)] paint_now_outside [OF ok c] Cons.prems(4))
qed simp

lemma in_world_bytes:
  assumes "in_world p"
  obtains x y z where "p = (unat (x :: u8), y, unat (z :: u8))"
proof -
  obtain a y c where p: "p = (a, y, c)" by (cases p)
  then have "a < 16" "c < 16" using assms by (simp_all add: in_world_def)
  then have "p = (unat (of_nat a :: u8), y, unat (of_nat c :: u8))" using p by (simp add: unat_of_nat)
  then show ?thesis by (rule that)
qed

text \<open>Calls in range, with registered names: the builder's sections are the painted ones.\<close>

lemma built_painted:
  assumes ok: "pumpkin_ok P block" and iter: "hash_iter_ok I" and cs: "list_all (paint_ok P) cs"
  shows "block (built_sections P I t (fold run_paint cs builder_new)) =
    block (fold (paint_now P) cs (sections_new P 24 (- 64)))"
proof
  fix p
  let ?b = "fold run_paint cs builder_new" and ?s0 = "sections_new P 24 (- 64)"
  have new: "block ?s0 (unat x, y, unat z) = block_id P (name_at builder_new x y z) (block ?s0 (unat x, y, unat z))"
    for x y z by (simp add: name_at_new block_id_def)
  note st = painted_state [OF ok cs painted_new new refl]
  show "block (built_sections P I t ?b) p = block (fold (paint_now P) cs ?s0) p"
  proof (cases "in_world p")
    case True
    then obtain x y z where p: "p = (unat (x :: u8), y, unat (z :: u8))" by (rule in_world_bytes)
    show ?thesis using st True built_names [OF ok iter, of ?b x y z t] unfolding p by simp
  next
    case False
    have b: "in_range_builder ?b" using st by (simp add: painted_builder_def)
    from st False have "block (fold (paint_now P) cs ?s0) p = block ?s0 p" by blast
    then show ?thesis using built_outside [OF ok iter b False, of t] by simp
  qed
qed

subsection \<open>Looking back from the last call\<close>

text \<open>The reference for all names, those the registry does not have included: which name a layer and which
  name a block of its own was given last, read off the calls from the last one backwards. A layer that is
  filled takes the names of the blocks set in it away.\<close>

fun layer_name :: "paint list \<Rightarrow> i32 \<Rightarrow> string option" where
  "layer_name [] y = None"
| "layer_name (Fill_layer y' name # before) y = (if y' = y then Some name else layer_name before y)"
| "layer_name (Set_block x' y' z' name # before) y = layer_name before y"

fun own_name :: "paint list \<Rightarrow> u8 \<Rightarrow> i32 \<Rightarrow> u8 \<Rightarrow> string option" where
  "own_name [] x y z = None"
| "own_name (Fill_layer y' name # before) x y z = (if y' = y then None else own_name before x y z)"
| "own_name (Set_block x' y' z' name # before) x y z =
     (if (x', y', z') = (x, y, z) then Some name else own_name before x y z)"

fun in_height :: "paint \<Rightarrow> bool" where
  "in_height (Set_block x y z name) \<longleftrightarrow> - 64 \<le> sint y \<and> sint y < 320"
| "in_height (Fill_layer y name) \<longleftrightarrow> - 64 \<le> sint y \<and> sint y < 320"

lemma looking_back:
  "full_layers (fold run_paint cs builder_new) y = layer_name (rev cs) y"
  "x < 16 \<Longrightarrow> z < 16 \<Longrightarrow> custom_blocks (fold run_paint cs builder_new) (x, y, z) = own_name (rev cs) x y z"
proof (induction cs rule: rev_induct)
  case Nil
  { case 1 show ?case by (simp add: builder_new_def) next case 2 show ?case by (simp add: builder_new_def) }
next
  case (snoc c cs)
  { case 1 show ?case using snoc(1) by (cases c) (auto simp: set_block_def fill_layer_def)
  next case 2 then show ?case using snoc(2) by (cases c) (auto simp: set_block_def fill_layer_def) }
qed

lemma in_range_run:
  assumes "in_range_builder b" and "in_height c"
  shows "in_range_builder (run_paint c b)"
proof (cases c)
  case (Set_block x y z name)
  have "in_world (unat x, y, unat z)" if "x < 16" "z < 16"
    using that assms(2) Set_block by (simp add: in_world_def word_less_nat_alt)
  then show ?thesis using assms Set_block by (auto simp: in_range_builder_def set_block_def split: if_splits)
next
  case (Fill_layer y name)
  let ?b = "fill_layer y name b"
  have "custom_blocks ?b \<subseteq>\<^sub>m custom_blocks b" by (auto simp: map_le_def fill_layer_def split: if_splits)
  then have dom: "dom (custom_blocks ?b) \<subseteq> dom (custom_blocks b)" by (rule map_le_implies_dom_le)
  then have "\<forall>p \<in> dom (custom_blocks ?b). case p of (x, y, z) \<Rightarrow> in_world (unat x, y, unat z)"
    using assms(1) unfolding in_range_builder_def by blast
  moreover have "finite (dom (custom_blocks ?b))"
    using assms(1) finite_subset [OF dom] by (simp add: in_range_builder_def)
  moreover have "\<forall>y' \<in> dom (full_layers ?b). - 64 \<le> sint y' \<and> sint y' < 320" "finite (dom (full_layers ?b))"
    using assms Fill_layer by (simp_all add: in_range_builder_def fill_layer_def)
  ultimately show ?thesis using Fill_layer by (simp add: in_range_builder_def)
qed

lemma in_range_runs: "list_all in_height cs \<Longrightarrow> in_range_builder b \<Longrightarrow> in_range_builder (fold run_paint cs b)"
  by (induction cs arbitrary: b) (simp_all add: in_range_run)

lemma in_range_new: "in_range_builder builder_new"
  by (simp add: builder_new_def in_range_builder_def)

lemma built_looking_back:
  assumes "pumpkin_ok P block" and "hash_iter_ok I" and "list_all in_height cs" and w: "in_world (unat x, y, unat z)"
  shows "block (built_sections P I t (fold run_paint cs builder_new)) (unat x, y, unat z) =
    block_id P (own_name (rev cs) x y z)
      (block_id P (layer_name (rev cs) y) (block (sections_new P 24 (- 64)) (unat x, y, unat z)))"
proof -
  have "x < 16" "z < 16" using w by (simp_all add: in_world_def word_less_nat_alt)
  then show ?thesis
    using built_blocks [OF assms(1,2) in_range_runs [OF assms(3) in_range_new] w] by (simp add: looking_back)
qed

subsection \<open>Properties\<close>

text \<open>A Pumpkin whose sections are the function from positions to block states: the ids are the
  lengths of the names, and a chunk is serialised as its coordinates and three of its blocks.\<close>

definition demo_pumpkin :: "(block_pos \<Rightarrow> u16, unit, unit) pumpkin" where
  "demo_pumpkin = \<lparr>sections_new = (\<lambda>n y p. 0), set_block_absolute_y = (\<lambda>x y z n s. s((x, y, z) := n)),
     from_registry_key = (\<lambda>name. Some (of_nat (length name))),
     heightmap_default = (), light_default = (),
     to_bytes = (\<lambda>c. let s = sections_of c in Some [0, ucast (chunk_x c), ucast (chunk_z c),
       ucast (s (0, 0, 0)), ucast (s (8, 0, 8)), ucast (s (8, 1, 8))])\<rparr>"

lemma demo_to_bytes: "chunk_to_bytes demo_pumpkin s x z =
    Some [0, ucast x, ucast z, ucast (s (0, 0, 0)), ucast (s (8, 0, 8)), ucast (s (8, 1, 8))]"
  by (simp add: chunk_to_bytes_def built_chunk_def demo_pumpkin_def)

text \<open>Hash maps that are iterated in the order of their keys.\<close>

definition key_order :: "('k :: linorder \<rightharpoonup> 'v) \<Rightarrow> ('k \<times> 'v) list" where
  "key_order m = map (\<lambda>k. (k, the (m k))) (sorted_list_of_set (dom m))"

definition demo_iter :: hash_iter where
  "demo_iter = \<lparr>iter_layers = (\<lambda>t. key_order), iter_custom = (\<lambda>t. key_order)\<rparr>"

lemma demo_pumpkin_ok: "pumpkin_ok demo_pumpkin id"
  by (simp add: pumpkin_ok_def chunk_to_bytes_def built_chunk_def demo_pumpkin_def)

lemma key_order_enumerates:
  assumes "finite (dom m)"
  shows "enumerates (key_order m) m"
proof -
  have "map_of (key_order m) k = m k" for k
    using assms by (cases "m k") (auto simp: key_order_def map_of_map_restrict restrict_map_def)
  moreover have "map fst (key_order m) = sorted_list_of_set (dom m)"
    by (simp add: key_order_def comp_def)
  ultimately show ?thesis by (simp add: enumerates_def fun_eq_iff)
qed

lemma demo_iter_ok: "hash_iter_ok demo_iter"
  by (simp add: hash_iter_ok_def demo_iter_def key_order_enumerates)

text \<open>C35: what \<open>build\<close> makes of any calls in the world's height, whose order and names are free: every
  block of the world is the one its own name stands for, the last it was given since its layer was last
  filled, or, without such a name or with one that the registry does not have, the one the name stands for
  with which its layer was last filled, or else the one it starts with; nothing else changes, and the
  order in which the hash maps are iterated does not show. So if the registry has all the names, the
  bytes are those of the chunk on which the calls are painted at once, one after the other.\<close>

theorem build_is_painting:
  assumes "pumpkin_ok P block" and "hash_iter_ok I" and "list_all in_height cs"
  shows "(\<exists>s. build P I t (fold run_paint cs builder_new) cx cz =
        (case chunk_to_bytes P s cx cz of None \<Rightarrow> Inl Generation_failed | Some bytes \<Rightarrow> Inr bytes) \<and>
      (\<forall>x y z. in_world (unat x, y, unat z) \<longrightarrow>
         block s (unat x, y, unat z) = block_id P (own_name (rev cs) x y z)
           (block_id P (layer_name (rev cs) y) (block (sections_new P 24 (- 64)) (unat x, y, unat z)))) \<and>
      (\<forall>p. \<not> in_world p \<longrightarrow> block s p = block (sections_new P 24 (- 64)) p)) \<and>
    (list_all (paint_ok P) cs \<longrightarrow>
      build P I t (fold run_paint cs builder_new) cx cz =
        (case chunk_to_bytes P (fold (paint_now P) cs (sections_new P 24 (- 64))) cx cz of
           None \<Rightarrow> Inl Generation_failed | Some bytes \<Rightarrow> Inr bytes))"
proof (intro conjI impI exI allI)
  let ?b = "fold run_paint cs builder_new"
  show "build P I t ?b cx cz = (case chunk_to_bytes P (built_sections P I t ?b) cx cz of
      None \<Rightarrow> Inl Generation_failed | Some bytes \<Rightarrow> Inr bytes)"
    by (simp add: build_def)
  show "in_world (unat x, y, unat z) \<Longrightarrow>
      block (built_sections P I t ?b) (unat x, y, unat z) = block_id P (own_name (rev cs) x y z)
        (block_id P (layer_name (rev cs) y) (block (sections_new P 24 (- 64)) (unat x, y, unat z)))" for x y z
    by (rule built_looking_back [OF assms])
  show "\<not> in_world p \<Longrightarrow> block (built_sections P I t ?b) p = block (sections_new P 24 (- 64)) p" for p
    by (rule built_outside [OF assms(1,2) in_range_runs [OF assms(3) in_range_new]])
  assume "list_all (paint_ok P) cs"
  then have "chunk_to_bytes P (built_sections P I t ?b) cx cz =
      chunk_to_bytes P (fold (paint_now P) cs (sections_new P 24 (- 64))) cx cz"
    using assms(1) built_painted [OF assms(1,2), of cs t] unfolding pumpkin_ok_def by blast
  then show "build P I t ?b cx cz =
      (case chunk_to_bytes P (fold (paint_now P) cs (sections_new P 24 (- 64))) cx cz of
         None \<Rightarrow> Inl Generation_failed | Some bytes \<Rightarrow> Inr bytes)"
    by (simp add: build_def)
qed

text \<open>In the witness a layer of stone is filled anew with a name that the registry does not have, a block
  of it is set to dirt, and the block above it to dirt and then to that name: only the dirt is there, the
  stone is gone. With names of the registry: a layer of stone, a block of dirt on it, that block again
  in glass, and grass on top.\<close>

definition strict_pumpkin :: "(block_pos \<Rightarrow> u16, unit, unit) pumpkin" where
  "strict_pumpkin = demo_pumpkin\<lparr>from_registry_key := (\<lambda>name. if name = ''bogus'' then None else Some (of_nat (length name)))\<rparr>"

lemma strict_pumpkin_ok: "pumpkin_ok strict_pumpkin id"
  by (simp add: pumpkin_ok_def chunk_to_bytes_def built_chunk_def strict_pumpkin_def demo_pumpkin_def)

lemma demo_layer:
  "in_world p \<Longrightarrow> - 64 \<le> sint y \<Longrightarrow> sint y < 320 \<Longrightarrow>
     apply_layer demo_pumpkin (y, name) s p =
       (if fst (snd p) = y then of_nat (length (name_key name)) else s p)"
  using apply_layer_blocks [OF demo_pumpkin_ok, of y p name s]
  by (simp add: block_id_def demo_pumpkin_def)

theorem build_is_painting_witness:
  "build strict_pumpkin demo_iter 0
     (fold run_paint [Fill_layer 0 ''stone'', Fill_layer 0 ''bogus'', Set_block 8 0 8 ''dirt'',
        Set_block 8 1 8 ''dirt'', Set_block 8 1 8 ''bogus''] builder_new) 3 4 = Inr [0, 3, 4, 0, 4, 0] \<and>
   build demo_pumpkin demo_iter 0
     (fold run_paint [Fill_layer 0 ''minecraft:stone'', Set_block 8 0 8 ''minecraft:dirt'',
        Set_block 8 0 8 ''glassy'', Fill_layer 1 ''minecraft:grass_block''] builder_new) 3 4 =
   Inr [0, 3, 4, 5, 6, 11]"
proof
  let ?cs = "[Fill_layer 0 ''stone'', Fill_layer 0 ''bogus'', Set_block 8 0 8 ''dirt'',
        Set_block 8 1 8 ''dirt'', Set_block 8 1 8 ''bogus'']"
  have "list_all in_height ?cs" by simp
  from build_is_painting [OF strict_pumpkin_ok demo_iter_ok this, THEN conjunct1, of 0 3 4]
  obtain s where b: "build strict_pumpkin demo_iter 0 (fold run_paint ?cs builder_new) 3 4 =
        (case chunk_to_bytes strict_pumpkin s 3 4 of None \<Rightarrow> Inl Generation_failed | Some bytes \<Rightarrow> Inr bytes)"
    and s: "\<And>x y z. in_world (unat x, y, unat z) \<Longrightarrow>
      s (unat x, y, unat z) = block_id strict_pumpkin (own_name (rev ?cs) x y z)
        (block_id strict_pumpkin (layer_name (rev ?cs) y) (sections_new strict_pumpkin 24 (- 64) (unat x, y, unat z)))"
    unfolding id_apply by blast
  have zero: "sections_new strict_pumpkin n y p = 0" for n y p by (simp add: strict_pumpkin_def demo_pumpkin_def)
  have id: "block_id strict_pumpkin name old =
      (case name of None \<Rightarrow> old | Some n \<Rightarrow> if name_key n = ''bogus'' then old else of_nat (length (name_key n)))" for name old
    by (simp add: block_id_def strict_pumpkin_def split: option.split)
  have "s (0, 0, 0) = 0" "s (8, 0, 8) = 4" "s (8, 1, 8) = 0"
    using s [of 0 0 0] s [of 8 0 8] s [of 8 1 8] by (simp_all add: in_world_def zero id name_key_def)
  moreover have "chunk_to_bytes strict_pumpkin s 3 4 = chunk_to_bytes demo_pumpkin s 3 4"
    by (simp add: chunk_to_bytes_def built_chunk_def strict_pumpkin_def demo_pumpkin_def)
  ultimately show "build strict_pumpkin demo_iter 0 (fold run_paint ?cs builder_new) 3 4 = Inr [0, 3, 4, 0, 4, 0]"
    unfolding b by (simp add: demo_to_bytes)
next
  let ?cs = "[Fill_layer 0 ''minecraft:stone'', Set_block 8 0 8 ''minecraft:dirt'',
        Set_block 8 0 8 ''glassy'', Fill_layer 1 ''minecraft:grass_block'']"
  have h: "list_all in_height ?cs" by simp
  have ok: "list_all (paint_ok demo_pumpkin) ?cs" by (simp add: registered_def demo_pumpkin_def)
  show "build demo_pumpkin demo_iter 0 (fold run_paint ?cs builder_new) 3 4 = Inr [0, 3, 4, 5, 6, 11]"
    unfolding build_is_painting [OF demo_pumpkin_ok demo_iter_ok h, THEN conjunct2, THEN mp, OF ok]
    by (simp add: demo_layer in_world_def apply_custom_def name_key_def demo_pumpkin_def [THEN arg_cong [where f = from_registry_key]]
        demo_pumpkin_def [THEN arg_cong [where f = set_block_absolute_y]]
        demo_pumpkin_def [THEN arg_cong [where f = sections_new]]
        demo_to_bytes)
qed

end
