(* ===== verification/Generator.thy ===== *)
theory Generator
  imports Coherence
begin

text \<open>
  The contract of the trait \<open>WorldGenerator\<close> (\<open>hoppermc-gen/src/lib.rs\<close>), as the virtual file needs it:
  asked again for a chunk a generator answers the same, and a chunk it generates declares the
  coordinates it was asked for, so that the consistency checks never discard it. The contract holds
  under \<open>law\<close>, what the generator itself relies on; it is interpreted on the flat generator in
  \<open>Flat\<close> and on the vanilla generator in \<open>System\<close>.
\<close>

definition generator_ok :: "nbt_lib \<Rightarrow> generator \<Rightarrow> bool" where
  "generator_ok L g \<longleftrightarrow>
     (\<forall>x z t. fst (g x z t) = fst (g x z 0)) \<and>
     (\<forall>x z t d. fst (g x z t) = Inr d \<longrightarrow> declared_coords L d = Some (x, z))"

lemma generator_honest:
  assumes "generator_ok (fastnbt E) (generate_chunk E)" and "\<And>d. eff d = Some (Some d)"
  shows "honest_generator E eff"
  using assms unfolding honest_generator_def generated_nbt_def good_nbt_def generator_ok_def
  by (auto split: sum.splits)

locale world_generator =
  fixes law :: bool
    and L :: nbt_lib
    and g :: generator
  assumes repeats: "law \<Longrightarrow> fst (g x z t) = fst (g x z t')"
    and honest: "law \<Longrightarrow> fst (g x z t) = Inr d \<Longrightarrow> declared_coords L d = Some (x, z)"
begin

lemma serves: "law \<Longrightarrow> generator_ok L g"
  using repeats honest unfolding generator_ok_def by blast

text \<open>What it generates passes the check of the read path.\<close>

lemma verified: "law \<Longrightarrow> fst (g x z t) = Inr d \<Longrightarrow> verify_chunk_coords L d x z = Inr ()"
  by (simp add: verify_chunk_coords_declared honest)

end

end
