(* ===== verification/Flat.thy ===== *)
theory Flat
  imports Builder Generator
begin

text \<open>
  \<open>hoppermc-gen/src/flat.rs\<close>: the flat world, the same calls to the \<open>ChunkBuilder\<close> for every chunk,
  and what makes it a generator the virtual file can rely on: it answers the same bytes every time
  it is asked for a chunk, and the chunk declares its own coordinates.
\<close>

subsection \<open>\<open>FlatGenerator\<close>\<close>

text \<open>Rust's \<open>lo..hi\<close> on \<open>i32\<close>.\<close>

definition i32_range :: "int \<Rightarrow> int \<Rightarrow> i32 list" where
  "i32_range lo hi = map word_of_int [lo..hi - 1]"

definition flat_builder :: chunk_builder where
  "flat_builder =
     (let builder = builder_new;
          builder = fill_layer (- 64) ''minecraft:bedrock'' builder;
          builder = fold (\<lambda>y. fill_layer y ''minecraft:stone'') (i32_range (- 63) (- 4)) builder;
          builder = fold (\<lambda>y. fill_layer y ''minecraft:dirt'') (i32_range (- 4) (- 1 + 1)) builder;
          builder = fill_layer 0 ''minecraft:grass_block'' builder
      in fold (\<lambda>y. set_block 8 y 8 ''minecraft:stone'') (i32_range 0 10) builder)"

text \<open>The generator records nothing in the metrics; \<open>t\<close> only tells calls apart.\<close>

definition flat_generator :: "('sec, 'hm, 'light) pumpkin \<Rightarrow> hash_iter \<Rightarrow> generator" where
  "flat_generator P I x z t = (build P I t flat_builder x z, [])"

subsection \<open>The maps of the flat builder\<close>

lemma i32_range_iff:
  assumes "- (2 ^ 31) \<le> lo" and "hi \<le> 2 ^ 31"
  shows "y \<in> set (i32_range lo hi) \<longleftrightarrow> lo \<le> sint y \<and> sint y < hi"
proof
  assume "y \<in> set (i32_range lo hi)"
  then obtain k where k: "y = word_of_int k" "lo \<le> k" "k < hi" by (auto simp: i32_range_def)
  then have "sint y = k" using assms by (simp add: sint_sbintrunc' signed_take_bit_int_eq_self)
  then show "lo \<le> sint y \<and> sint y < hi" using k by simp
next
  assume "lo \<le> sint y \<and> sint y < hi"
  moreover have "y = word_of_int (sint y)" by simp
  ultimately show "y \<in> set (i32_range lo hi)" unfolding i32_range_def set_map by (intro image_eqI) auto
qed

lemma fill_fold:
  "full_layers (fold (\<lambda>y. fill_layer y name) ys b) y = (if y \<in> set ys then Some name else full_layers b y)"
  "custom_blocks b = Map.empty \<Longrightarrow> custom_blocks (fold (\<lambda>y. fill_layer y name) ys b) = Map.empty"
  by (induction ys arbitrary: b) (auto simp: fill_layer_def fun_eq_iff)

lemma set_fold:
  assumes "x < 16" and "z < 16"
  shows "full_layers (fold (\<lambda>y. set_block x y z name) ys b) = full_layers b"
    and "custom_blocks (fold (\<lambda>y. set_block x y z name) ys b) p =
      (if fst p = x \<and> snd (snd p) = z \<and> fst (snd p) \<in> set ys then Some name else custom_blocks b p)"
  using assms by (induction ys arbitrary: b) (auto simp: set_block_def)

definition flat_name :: "i32 \<Rightarrow> string option" where
  "flat_name y =
     (if y = - 64 then Some ''minecraft:bedrock''
      else if - 63 \<le> sint y \<and> sint y < - 4 then Some ''minecraft:stone''
      else if - 4 \<le> sint y \<and> sint y < 0 then Some ''minecraft:dirt''
      else if y = 0 then Some ''minecraft:grass_block'' else None)"

lemma flat_layers: "full_layers flat_builder y = flat_name y"
proof -
  have "sint (- 64 :: i32) = - 64" by simp
  then show ?thesis
    by (auto simp: flat_builder_def Let_def set_fold fill_fold i32_range_iff fill_layer_def builder_new_def flat_name_def)
qed

lemma flat_custom:
  "custom_blocks flat_builder (x, y, z) =
     (if x = 8 \<and> z = 8 \<and> 0 \<le> sint y \<and> sint y < 10 then Some ''minecraft:stone'' else None)"
proof -
  have "custom_blocks (fold (\<lambda>y. fill_layer y ''minecraft:dirt'') ys (fold (\<lambda>y. fill_layer y ''minecraft:stone'') zs
      (fill_layer (- 64) ''minecraft:bedrock'' builder_new))) = Map.empty" for ys zs
    by (intro fill_fold(2)) (simp add: fill_layer_def builder_new_def fun_eq_iff)
  then show ?thesis
    by (simp add: flat_builder_def Let_def set_fold i32_range_iff fill_layer_def)
qed

lemma flat_in_range: "in_range_builder flat_builder"
proof -
  have layer: "- 64 \<le> sint y \<and> sint y < 320" if "full_layers flat_builder y \<noteq> None" for y
    using that by (auto simp: flat_layers flat_name_def split: if_splits)
  have custom: "in_world (unat x, y, unat z)" if "custom_blocks flat_builder (x, y, z) \<noteq> None" for x y z
    using that by (auto simp: flat_custom in_world_def split: if_splits)
  have "dom (full_layers flat_builder) \<subseteq> UNIV" "dom (custom_blocks flat_builder) \<subseteq> UNIV" by simp_all
  then have "finite (dom (full_layers flat_builder))" "finite (dom (custom_blocks flat_builder))"
    by (auto intro: finite_subset)
  then show ?thesis using layer custom unfolding in_range_builder_def by (auto simp: dom_def)
qed

lemma strip_namespace:
  "name_key ''minecraft:bedrock'' = ''bedrock''" "name_key ''minecraft:stone'' = ''stone''"
  "name_key ''minecraft:dirt'' = ''dirt''" "name_key ''minecraft:grass_block'' = ''grass_block''"
  by (simp_all add: name_key_def)

lemma built_order:
  assumes "pumpkin_ok P block" and "hash_iter_ok I" and "in_range_builder b"
  shows "block (built_sections P I t b) = block (built_sections P I t' b)"
proof
  fix p
  show "block (built_sections P I t b) p = block (built_sections P I t' b) p"
  proof (cases "in_world p")
    case True
    then obtain x y z where p: "p = (unat (x :: u8), y, unat (z :: u8))" by (rule in_world_bytes)
    show ?thesis using True unfolding p by (simp add: built_blocks [OF assms])
  qed (simp add: built_outside [OF assms])
qed

lemma build_order:
  assumes "pumpkin_ok P block" and "hash_iter_ok I" and "in_range_builder b"
  shows "build P I t b x z = build P I t' b x z"
proof -
  have "chunk_to_bytes P (built_sections P I t b) x z = chunk_to_bytes P (built_sections P I t' b) x z"
    using assms(1) built_order [OF assms, of t t'] unfolding pumpkin_ok_def by blast
  then show ?thesis by (simp add: build_def)
qed

subsection \<open>The generator's contract\<close>

text \<open>What is relied on of the serialiser: the tags \<open>xPos\<close> and \<open>zPos\<close> are the coordinates it is given.\<close>

definition writes_coords :: "('sec, 'hm, 'light) pumpkin \<Rightarrow> nbt_lib \<Rightarrow> bool" where
  "writes_coords P L \<longleftrightarrow> (\<forall>s x z d. chunk_to_bytes P s x z = Some d \<longrightarrow> declared_coords L d = Some (x, z))"

interpretation flat: world_generator
  "(\<exists>block. pumpkin_ok P block) \<and> hash_iter_ok I \<and> writes_coords P L" L "flat_generator P I"
  for P I L
proof (unfold_locales, goal_cases)
  case (1 x z t t')
  then obtain block where "pumpkin_ok P block" "hash_iter_ok I" by blast
  from build_order [OF this flat_in_range, of t x z t'] show ?case by (simp add: flat_generator_def)
next
  case (2 x z t d)
  then show ?case by (auto simp: flat_generator_def build_def writes_coords_def split: option.splits)
qed

subsection \<open>Properties\<close>

text \<open>The terrain: bedrock, 59 layers of stone, four of dirt, grass at \<open>y = 0\<close>, and a pillar of stone
  ten high in column (8, 8) that starts inside the grass layer.\<close>

definition flat_terrain :: "u16 \<Rightarrow> u16 \<Rightarrow> u16 \<Rightarrow> u16 \<Rightarrow> u16 \<Rightarrow> nat \<Rightarrow> int \<Rightarrow> nat \<Rightarrow> u16" where
  "flat_terrain bedrock stone dirt grass rest x y z =
     (if x = 8 \<and> z = 8 \<and> 0 \<le> y \<and> y < 10 then stone
      else if y = - 64 then bedrock
      else if y < - 4 then stone
      else if y < 0 then dirt
      else if y = 0 then grass
      else rest)"

text \<open>C36: every chunk of the flat world has the same terrain, whatever its coordinates and however the
  hash maps are iterated, and only the coordinates that are serialised with it differ.\<close>

theorem flat_world:
  assumes "pumpkin_ok P block" and "hash_iter_ok I"
    and "from_registry_key P ''bedrock'' = Some bedrock" and "from_registry_key P ''stone'' = Some stone"
    and "from_registry_key P ''dirt'' = Some dirt" and "from_registry_key P ''grass_block'' = Some grass"
  shows "\<exists>s. (\<forall>cx cz t. fst (flat_generator P I cx cz t) =
        (case chunk_to_bytes P s cx cz of None \<Rightarrow> Inl Generation_failed | Some bytes \<Rightarrow> Inr bytes)) \<and>
    (\<forall>x y z. in_world (x, y, z) \<longrightarrow>
       block s (x, y, z) =
         flat_terrain bedrock stone dirt grass (block (sections_new P 24 (- 64)) (x, y, z)) x (sint y) z)"
proof (intro exI conjI allI impI)
  let ?s = "built_sections P I 0 flat_builder"
  show "fst (flat_generator P I cx cz t) =
      (case chunk_to_bytes P ?s cx cz of None \<Rightarrow> Inl Generation_failed | Some bytes \<Rightarrow> Inr bytes)" for cx cz t
    unfolding flat_generator_def fst_conv build_order [OF assms(1,2) flat_in_range, of t cx cz 0]
    by (simp add: build_def)
  fix x y z assume w: "in_world (x, y, z)"
  from w obtain bx bz where x: "x = unat (bx :: u8)" and z: "z = unat (bz :: u8)"
    by (metis in_world_bytes prod.inject)
  have eight: "unat b = 8 \<longleftrightarrow> b = 8" for b :: u8 using unat_eq_u8 [of b 8] by simp
  have ints: "y = - 64 \<longleftrightarrow> sint y = - 64" "y = 0 \<longleftrightarrow> sint y = 0"
    using signed_word_eqI [of y "- 64"] signed_word_eqI [of y 0] by auto
  have y: "- 64 \<le> sint y" using w by (simp add: in_world_def)
  show "block ?s (x, y, z) =
      flat_terrain bedrock stone dirt grass (block (sections_new P 24 (- 64)) (x, y, z)) x (sint y) z"
    using y unfolding x z built_blocks [OF assms(1,2) flat_in_range w [unfolded x z], of 0]
    by (auto simp: flat_layers flat_custom flat_name_def flat_terrain_def block_id_def strip_namespace assms eight ints)
qed

theorem flat_world_witness:
  "fst (flat_generator demo_pumpkin demo_iter 3 4 7) = Inr [0, 3, 4, 11, 5, 5]"
proof -
  have keys: "from_registry_key demo_pumpkin ''bedrock'' = Some 7" "from_registry_key demo_pumpkin ''stone'' = Some 5"
    "from_registry_key demo_pumpkin ''dirt'' = Some 4" "from_registry_key demo_pumpkin ''grass_block'' = Some 11"
    by (simp_all add: demo_pumpkin_def)
  obtain s where s: "fst (flat_generator demo_pumpkin demo_iter 3 4 7) =
        (case chunk_to_bytes demo_pumpkin s 3 4 of None \<Rightarrow> Inl Generation_failed | Some bytes \<Rightarrow> Inr bytes)"
    and at: "\<And>x y z. in_world (x, y, z) \<Longrightarrow>
      s (x, y, z) = flat_terrain 7 5 4 11 (sections_new demo_pumpkin 24 (- 64) (x, y, z)) x (sint y) z"
    using flat_world [OF demo_pumpkin_ok demo_iter_ok keys] unfolding id_apply by blast
  have "s (0, 0, 0) = 11" "s (8, 0, 8) = 5" "s (8, 1, 8) = 5"
    by (simp_all add: at in_world_def flat_terrain_def)
  then show ?thesis using s by (simp add: demo_to_bytes)
qed

end
