(* ===== verification/Vanilla.thy ===== *)
theory Vanilla
  imports Builder
begin

text \<open>
  \<open>hoppermc-gen/src/vanilla.rs\<close>: the generator that runs Pumpkin's generation stages and copies
  their result into the sections of a chunk. The stages, the registries, the palettes of a section
  and the serialiser are Pumpkin's: the fields of \<open>pumpkin_gen\<close>. \<open>None\<close> as the result of a
  function of this theory is a panic.
\<close>

subsection \<open>Pumpkin\<close>

datatype dimension = Overworld | Nether | End

datatype base_router =
  OVERWORLD_BASE_NOISE_ROUTER | NETHER_BASE_NOISE_ROUTER | END_BASE_NOISE_ROUTER

datatype generator_setting = Setting_Overworld | Setting_Nether | Setting_End

text \<open>\<open>ChunkSections\<close>: a slice of sections and the height of its bottom.\<close>

record 'sub chunk_sections =
  section_slice :: "'sub list"
  min_y :: i32

text \<open>\<open>'rc\<close> is \<open>GlobalRandomConfig\<close>, \<open>'nr\<close> \<open>ProtoNoiseRouters\<close>, \<open>'tc\<close> \<open>TerrainCache\<close>, \<open>'gs\<close>
  \<open>GenerationSettings\<close>, \<open>'pc\<close> \<open>ProtoChunk\<close>, \<open>'sub\<close> \<open>SubChunk\<close>.\<close>

record ('rc, 'nr, 'tc, 'gs, 'pc, 'sub, 'hm, 'light) pumpkin_gen =
  random_config_new :: "u64 \<Rightarrow> bool \<Rightarrow> 'rc"
  config_seed :: "'rc \<Rightarrow> u64"
  hash_seed :: "u64 \<Rightarrow> i64"
  routers_generate :: "base_router \<Rightarrow> 'rc \<Rightarrow> 'nr"
  cache_from_random :: "'rc \<Rightarrow> 'tc"
  generation_settings :: "generator_setting \<Rightarrow> 'gs option"
  shape_height :: "'gs \<Rightarrow> nat"
  shape_min_y :: "'gs \<Rightarrow> int"
  default_state :: "'gs \<Rightarrow> u16"
  proto_new :: "i32 \<Rightarrow> i32 \<Rightarrow> 'gs \<Rightarrow> u16 \<Rightarrow> i64 \<Rightarrow> 'pc"
  step_to_biomes :: "dimension \<Rightarrow> 'nr \<Rightarrow> 'pc \<Rightarrow> 'pc"
  step_to_noise :: "'gs \<Rightarrow> 'rc \<Rightarrow> 'nr \<Rightarrow> 'pc \<Rightarrow> 'pc"
  step_to_surface :: "'gs \<Rightarrow> 'rc \<Rightarrow> 'tc \<Rightarrow> 'nr \<Rightarrow> 'pc \<Rightarrow> 'pc"
  proto_x :: "'pc \<Rightarrow> i32"
  proto_z :: "'pc \<Rightarrow> i32"
  get_biome_id :: "'pc \<Rightarrow> i32 \<Rightarrow> i32 \<Rightarrow> i32 \<Rightarrow> nat"
  get_block_state_raw :: "'pc \<Rightarrow> i32 \<Rightarrow> i32 \<Rightarrow> i32 \<Rightarrow> nat"
  block_palette_size :: nat
  biome_palette_size :: nat
  biome_from_block :: "int \<Rightarrow> int"
  sub_default :: 'sub
  set_biome :: "nat \<Rightarrow> nat \<Rightarrow> nat \<Rightarrow> u8 \<Rightarrow> 'sub \<Rightarrow> 'sub"
  set_block_state :: "nat \<Rightarrow> nat \<Rightarrow> nat \<Rightarrow> u16 \<Rightarrow> 'sub \<Rightarrow> 'sub"
  default_heightmap :: 'hm
  calculate_heightmap :: "('sub chunk_sections, 'hm, 'light) chunk_data \<Rightarrow> 'hm"
  light_filled :: "nat \<Rightarrow> 'light"
  light_empty :: "nat \<Rightarrow> 'light"
  data_to_bytes :: "('sub chunk_sections, 'hm, 'light) chunk_data \<Rightarrow> bytes option"

subsection \<open>\<open>VanillaWorldGenerator\<close>\<close>

record ('rc, 'nr, 'tc) vanilla_generator =
  dimension :: dimension
  random_config :: 'rc
  noise_router :: 'nr
  terrain_cache :: 'tc

definition with_dimension ::
    "('rc, 'nr, 'tc, 'gs, 'pc, 'sub, 'hm, 'light) pumpkin_gen \<Rightarrow> u64 \<Rightarrow> dimension \<Rightarrow>
     ('rc, 'nr, 'tc) vanilla_generator" where
  "with_dimension G seed d =
     (let random_config = random_config_new G seed False;
          base_router = (case d of
              Overworld \<Rightarrow> OVERWORLD_BASE_NOISE_ROUTER
            | Nether \<Rightarrow> NETHER_BASE_NOISE_ROUTER
            | End \<Rightarrow> END_BASE_NOISE_ROUTER);
          noise_router = routers_generate G base_router random_config;
          terrain_cache = cache_from_random G random_config
      in \<lparr>dimension = d, random_config = random_config, noise_router = noise_router,
          terrain_cache = terrain_cache\<rparr>)"

definition vanilla_new ::
    "('rc, 'nr, 'tc, 'gs, 'pc, 'sub, 'hm, 'light) pumpkin_gen \<Rightarrow> u64 \<Rightarrow> ('rc, 'nr, 'tc) vanilla_generator" where
  "vanilla_new G seed = with_dimension G seed Overworld"

definition get_settings ::
    "('rc, 'nr, 'tc, 'gs, 'pc, 'sub, 'hm, 'light) pumpkin_gen \<Rightarrow> ('rc, 'nr, 'tc) vanilla_generator \<Rightarrow> 'gs option" where
  "get_settings G v =
     generation_settings G
       (case dimension v of
          Overworld \<Rightarrow> Setting_Overworld
        | Nether \<Rightarrow> Setting_Nether
        | End \<Rightarrow> Setting_End)"

subsection \<open>\<open>proto_to_chunk_data\<close>\<close>

text \<open>\<open>settings.shape.height\<close> and \<open>settings.shape.min_y\<close> are numbers of narrower types, so casts to
  \<open>usize\<close> and \<open>i32\<close> keep them. A parallel map over a vector that is collected keeps the order.\<close>

definition biome_row ::
    "('rc, 'nr, 'tc, 'gs, 'pc, 'sub, 'hm, 'light) pumpkin_gen \<Rightarrow> 'pc \<Rightarrow> 'gs \<Rightarrow> nat \<Rightarrow> u8 list" where
  "biome_row G proto settings y =
     concat (map (\<lambda>z. map (\<lambda>local_x.
         let absolute_y = word_of_int (biome_from_block G (shape_min_y G settings)) + of_nat y
         in of_nat (get_biome_id G proto (of_nat local_x) absolute_y (of_nat z)))
       [0..<biome_palette_size G]) [0..<biome_palette_size G])"

definition block_row ::
    "('rc, 'nr, 'tc, 'gs, 'pc, 'sub, 'hm, 'light) pumpkin_gen \<Rightarrow> 'pc \<Rightarrow> nat \<Rightarrow> u16 list" where
  "block_row G proto y =
     concat (map (\<lambda>z. map (\<lambda>x. of_nat (get_block_state_raw G proto (of_nat x) (of_nat y) (of_nat z)))
       [0..<16]) [0..<16])"

text \<open>The copy of one row into a section: a position for each value, in the order the row was
  collected, \<open>idx\<close> counted along. An index past the end of the row panics.\<close>

definition plane :: "nat \<Rightarrow> (nat \<times> nat) list" where
  "plane n = concat (map (\<lambda>z. map (\<lambda>x. (x, z)) [0..<n]) [0..<n])"

fun copy_row :: "(nat \<Rightarrow> nat \<Rightarrow> 'v \<Rightarrow> 'sub \<Rightarrow> 'sub) \<Rightarrow> 'v list \<Rightarrow> (nat \<times> nat) list \<Rightarrow> nat \<Rightarrow> 'sub \<Rightarrow> 'sub option" where
  "copy_row set_at row [] idx sub = Some sub"
| "copy_row set_at row ((x, z) # ps) idx sub =
     (if idx < length row then copy_row set_at row ps (idx + 1) (set_at x z (row ! idx) sub) else None)"

text \<open>The loop over the rows: row \<open>y\<close> goes to plane \<open>y % h\<close> of section \<open>y / h\<close>, if there is one.\<close>

fun copy_rows ::
    "(nat \<Rightarrow> nat \<Rightarrow> nat \<Rightarrow> 'v \<Rightarrow> 'sub \<Rightarrow> 'sub) \<Rightarrow> nat \<Rightarrow> nat \<Rightarrow> nat \<Rightarrow> 'v list list \<Rightarrow> 'sub list \<Rightarrow> 'sub list option" where
  "copy_rows set_at h n y [] subs = Some subs"
| "copy_rows set_at h n y (row # rows) subs =
     (let section_index = y div h; relative_y_in_section = y mod h
      in if section_index < length subs then
           (case copy_row (\<lambda>x z. set_at x relative_y_in_section z) row (plane n) 0 (subs ! section_index) of
              None \<Rightarrow> None
            | Some sub \<Rightarrow> copy_rows set_at h n (y + 1) rows (subs[section_index := sub]))
         else copy_rows set_at h n (y + 1) rows subs)"

definition proto_to_chunk_data ::
    "('rc, 'nr, 'tc, 'gs, 'pc, 'sub, 'hm, 'light) pumpkin_gen \<Rightarrow> 'pc \<Rightarrow> 'gs \<Rightarrow>
     ('sub chunk_sections, 'hm, 'light) chunk_data option" where
  "proto_to_chunk_data G proto settings =
     (let sub_chunks = shape_height G settings div block_palette_size G;
          sections = replicate sub_chunks (sub_default G);
          biome_ys = [0..<nat (biome_from_block G (int (shape_height G settings)))];
          block_ys = [0..<shape_height G settings];
          S = biome_palette_size G
      in case copy_rows (set_biome G) S S 0 (map (biome_row G proto settings) biome_ys) sections of
           None \<Rightarrow> None
         | Some sections \<Rightarrow>
             (case copy_rows (set_block_state G) 16 16 0 (map (block_row G proto) block_ys) sections of
                None \<Rightarrow> None
              | Some sections \<Rightarrow>
                  let chunk = \<lparr>sections_of = \<lparr>section_slice = sections, min_y = word_of_int (shape_min_y G settings)\<rparr>,
                        heightmap = default_heightmap G, chunk_x = proto_x G proto, chunk_z = proto_z G proto,
                        sky_light = replicate sub_chunks (light_filled G 15),
                        block_light = replicate sub_chunks (light_empty G 0),
                        status = Full, dirty = False\<rparr>
                  in Some (chunk\<lparr>heightmap := calculate_heightmap G chunk\<rparr>)))"

subsection \<open>\<open>generate_chunk\<close>\<close>

text \<open>The durations of the five phases are \<open>clock\<close>. What is recorded in the metrics is recorded
  before the serialiser's error is returned, except its own time.\<close>

definition vanilla_proto ::
    "('rc, 'nr, 'tc, 'gs, 'pc, 'sub, 'hm, 'light) pumpkin_gen \<Rightarrow> ('rc, 'nr, 'tc) vanilla_generator \<Rightarrow>
     'gs \<Rightarrow> i32 \<Rightarrow> i32 \<Rightarrow> 'pc" where
  "vanilla_proto G v settings x z =
     (let default_block = default_state G settings;
          biome_mixer_seed = hash_seed G (config_seed G (random_config v));
          proto = proto_new G x z settings default_block biome_mixer_seed;
          proto = step_to_biomes G (dimension v) (noise_router v) proto;
          proto = step_to_noise G settings (random_config v) (noise_router v) proto
      in step_to_surface G settings (random_config v) (terrain_cache v) (noise_router v) proto)"

definition vanilla_generate_chunk ::
    "('rc, 'nr, 'tc, 'gs, 'pc, 'sub, 'hm, 'light) pumpkin_gen \<Rightarrow> ('rc, 'nr, 'tc) vanilla_generator \<Rightarrow>
     (nat \<Rightarrow> duration) \<Rightarrow> i32 \<Rightarrow> i32 \<Rightarrow> ((gen_error + bytes) \<times> atomic list) option" where
  "vanilla_generate_chunk G v clock x z =
     (case get_settings G v of
        None \<Rightarrow> None
      | Some settings \<Rightarrow>
          (case proto_to_chunk_data G (vanilla_proto G v settings x z) settings of
             None \<Rightarrow> None
           | Some chunk_data \<Rightarrow>
               let ops = record_generation_biomes (clock 0) @ record_generation_noise (clock 1) @
                     record_generation_surface (clock 2) @ record_generation_conversion (clock 3)
               in Some (case data_to_bytes G chunk_data of
                    None \<Rightarrow> (Inl Generation_failed, ops)
                  | Some bytes \<Rightarrow> (Inr bytes, ops @ record_serialization (clock 4)))))"

subsection \<open>What the copies do\<close>

text \<open>A palette of \<open>n\<close> by \<open>n\<close> by \<open>n\<close> cells: setting one sets it and no other, and leaves the other
  palette of the section alone.\<close>

definition palette_ok ::
    "(nat \<Rightarrow> nat \<Rightarrow> nat \<Rightarrow> 'v \<Rightarrow> 'sub \<Rightarrow> 'sub) \<Rightarrow> ('sub \<Rightarrow> nat \<times> nat \<times> nat \<Rightarrow> 'v) \<Rightarrow> ('sub \<Rightarrow> 'k) \<Rightarrow> nat \<Rightarrow> bool" where
  "palette_ok set_at look keep n \<longleftrightarrow>
     (\<forall>x y z v s. x < n \<longrightarrow> y < n \<longrightarrow> z < n \<longrightarrow>
        look (set_at x y z v s) = (look s)((x, y, z) := v) \<and> keep (set_at x y z v s) = keep s)"

lemma set_plane: "set (plane n) = {..<n} \<times> {..<n}"
  by (auto simp: plane_def)

lemma row_plane: "concat (map (\<lambda>z. map (\<lambda>x. f x z) [0..<n]) [0..<n]) = map (\<lambda>(x, z). f x z) (plane n)"
  by (simp add: plane_def map_concat comp_def)

lemma copy_row_spec:
  assumes ok: "palette_ok set_at look keep n" and y: "y < n"
    and "\<forall>(x, z) \<in> set ps. x < n \<and> z < n" and "drop idx row = map f ps"
  shows "\<exists>s'. copy_row (\<lambda>x z. set_at x y z) row ps idx s = Some s' \<and> keep s' = keep s \<and>
    look s' = (\<lambda>(a, b, c). if b = y \<and> (a, c) \<in> set ps then f (a, c) else look s (a, b, c))"
  using assms(3,4)
proof (induction ps arbitrary: idx s)
  case Nil
  then show ?case by (simp add: fun_eq_iff)
next
  case (Cons q ps)
  obtain x z where q: "q = (x, z)" by (cases q)
  have lt: "idx < length row" using Cons.prems(2) by (cases "idx < length row") auto
  then have row: "row ! idx = f (x, z)" "drop (idx + 1) row = map f ps"
    using Cons.prems(2) q by (simp_all add: Cons_nth_drop_Suc [symmetric])
  have xz: "x < n" "z < n" and ps: "\<forall>(x, z) \<in> set ps. x < n \<and> z < n" using Cons.prems(1) q by auto
  let ?s = "set_at x y z (row ! idx) s"
  have set: "look ?s = (look s)((x, y, z) := f (x, z))" "keep ?s = keep s"
    using ok [unfolded palette_ok_def, rule_format, OF xz(1) y xz(2), of "row ! idx" s] row(1) by simp_all
  obtain s' where s': "copy_row (\<lambda>x z. set_at x y z) row ps (idx + 1) ?s = Some s'" "keep s' = keep ?s"
    "look s' = (\<lambda>(a, b, c). if b = y \<and> (a, c) \<in> set ps then f (a, c) else look ?s (a, b, c))"
    using Cons.IH [OF ps row(2), of ?s] by blast
  show ?case
    using s' lt set by (intro exI [of _ s']) (auto simp: q fun_eq_iff)
qed

lemma cell_unique: "b < n \<Longrightarrow> i * n + b = y \<longleftrightarrow> i = y div n \<and> b = y mod n" for i b n y :: nat
  by auto

lemma copy_rows_spec:
  assumes ok: "palette_ok set_at look keep n" and n: "0 < n"
  shows "\<exists>subs'. copy_rows set_at n n y0 (map (\<lambda>y. map (f y) (plane n)) [y0..<y0 + k]) subs = Some subs' \<and>
    length subs' = length subs \<and> map keep subs' = map keep subs \<and>
    (\<forall>i < length subs. look (subs' ! i) =
       (\<lambda>(a, b, c). if a < n \<and> b < n \<and> c < n \<and> y0 \<le> i * n + b \<and> i * n + b < y0 + k
          then f (i * n + b) (a, c) else look (subs ! i) (a, b, c)))"
proof (induction k arbitrary: y0 subs)
  case 0
  then show ?case by (auto simp: fun_eq_iff)
next
  case (Suc k)
  have rows: "map (\<lambda>y. map (f y) (plane n)) [y0..<y0 + Suc k] =
      map (f y0) (plane n) # map (\<lambda>y. map (f y) (plane n)) [Suc y0..<Suc y0 + k]"
    by (simp add: upt_conv_Cons del: upt_Suc)
  let ?i = "y0 div n" and ?b = "y0 mod n"
  have b: "?b < n" using n by simp
  show ?case
  proof (cases "?i < length subs")
    case True
    obtain s' where s': "copy_row (\<lambda>x z. set_at x ?b z) (map (f y0) (plane n)) (plane n) 0 (subs ! ?i) = Some s'"
      "keep s' = keep (subs ! ?i)"
      "look s' = (\<lambda>(a, b, c). if b = ?b \<and> (a, c) \<in> set (plane n) then f y0 (a, c) else look (subs ! ?i) (a, b, c))"
      using copy_row_spec [OF ok b, of "plane n" 0 "map (f y0) (plane n)" "f y0" "subs ! ?i"]
      by (auto simp: set_plane)
    obtain subs' where subs': "copy_rows set_at n n (Suc y0) (map (\<lambda>y. map (f y) (plane n)) [Suc y0..<Suc y0 + k])
          (subs[?i := s']) = Some subs'"
      "length subs' = length subs" "map keep subs' = map keep (subs[?i := s'])"
      "\<forall>i < length subs. look (subs' ! i) =
         (\<lambda>(a, b, c). if a < n \<and> b < n \<and> c < n \<and> Suc y0 \<le> i * n + b \<and> i * n + b < Suc y0 + k
            then f (i * n + b) (a, c) else look (subs[?i := s'] ! i) (a, b, c))"
      using Suc.IH [of "Suc y0" "subs[?i := s']"] by auto
    have "map keep (subs[?i := s']) = map keep subs"
      using s'(2) True by (simp add: map_update list_update_same_conv)
    moreover have "look (subs' ! i) =
       (\<lambda>(a, b, c). if a < n \<and> b < n \<and> c < n \<and> y0 \<le> i * n + b \<and> i * n + b < y0 + Suc k
          then f (i * n + b) (a, c) else look (subs ! i) (a, b, c))" if i: "i < length subs" for i
    proof (rule ext, clarify)
      fix a b c
      show "look (subs' ! i) (a, b, c) = (if a < n \<and> b < n \<and> c < n \<and> y0 \<le> i * n + b \<and> i * n + b < y0 + Suc k
          then f (i * n + b) (a, c) else look (subs ! i) (a, b, c))"
      proof (cases "b < n \<and> i * n + b = y0")
        case True
        then have "i = ?i" "b = ?b" using cell_unique [of b n i y0] by simp_all
        then show ?thesis
          using subs'(4) i True s'(3) by (simp add: set_plane)
      next
        case False
        then have "look (subs[?i := s'] ! i) (a, b, c) = look (subs ! i) (a, b, c)"
          using s'(3) i b cell_unique [of b n i y0] by (cases "i = ?i") auto
        moreover have "y0 \<le> i * n + b \<and> i * n + b < y0 + Suc k \<longleftrightarrow> Suc y0 \<le> i * n + b \<and> i * n + b < Suc y0 + k"
          if "b < n" using False that by auto
        ultimately show ?thesis using subs'(4) i by auto
      qed
    qed
    ultimately show ?thesis
      unfolding rows using True s'(1) subs'(1-3) by (intro exI [of _ subs']) (simp add: Let_def)
  next
    case False
    obtain subs' where subs': "copy_rows set_at n n (Suc y0) (map (\<lambda>y. map (f y) (plane n)) [Suc y0..<Suc y0 + k])
          subs = Some subs'"
      "length subs' = length subs" "map keep subs' = map keep subs"
      "\<forall>i < length subs. look (subs' ! i) =
         (\<lambda>(a, b, c). if a < n \<and> b < n \<and> c < n \<and> Suc y0 \<le> i * n + b \<and> i * n + b < Suc y0 + k
            then f (i * n + b) (a, c) else look (subs ! i) (a, b, c))"
      using Suc.IH [of "Suc y0" subs] by auto
    have "look (subs' ! i) =
       (\<lambda>(a, b, c). if a < n \<and> b < n \<and> c < n \<and> y0 \<le> i * n + b \<and> i * n + b < y0 + Suc k
          then f (i * n + b) (a, c) else look (subs ! i) (a, b, c))" if i: "i < length subs" for i
    proof (rule ext, clarify)
      fix a b c
      have "i * n + b \<noteq> y0" if "b < n" using cell_unique [OF that, of i y0] i False by auto
      then show "look (subs' ! i) (a, b, c) = (if a < n \<and> b < n \<and> c < n \<and> y0 \<le> i * n + b \<and> i * n + b < y0 + Suc k
          then f (i * n + b) (a, c) else look (subs ! i) (a, b, c))"
        using subs'(4) i by auto
    qed
    then show ?thesis
      unfolding rows using False subs'(1-3) by (intro exI [of _ subs']) (simp add: Let_def)
  qed
qed

subsection \<open>What is relied on of Pumpkin\<close>

text \<open>The palettes of a section are independent arrays of 16 by 16 by 16 blocks and 4 by 4 by 4
  biomes, and a biome coordinate is a quarter of a block's.\<close>

definition pumpkin_gen_ok ::
    "('rc, 'nr, 'tc, 'gs, 'pc, 'sub, 'hm, 'light) pumpkin_gen \<Rightarrow>
     ('sub \<Rightarrow> nat \<times> nat \<times> nat \<Rightarrow> u16) \<Rightarrow> ('sub \<Rightarrow> nat \<times> nat \<times> nat \<Rightarrow> u8) \<Rightarrow> bool" where
  "pumpkin_gen_ok G block biome \<longleftrightarrow>
     block_palette_size G = 16 \<and> biome_palette_size G = 4 \<and> (\<forall>n. biome_from_block G n = n div 4) \<and>
     palette_ok (set_block_state G) block biome 16 \<and> palette_ok (set_biome G) biome block 4"

lemma biome_row_plane:
  "biome_row G proto gs y = map (\<lambda>(x, z). of_nat (get_biome_id G proto (of_nat x)
      (word_of_int (biome_from_block G (shape_min_y G gs)) + of_nat y) (of_nat z))) (plane (biome_palette_size G))"
  unfolding biome_row_def Let_def by (rule row_plane)

lemma block_row_plane:
  "block_row G proto y = map (\<lambda>(x, z). of_nat (get_block_state_raw G proto (of_nat x) (of_nat y) (of_nat z))) (plane 16)"
  unfolding block_row_def by (rule row_plane)

lemma chunk_data_copied:
  assumes ok: "pumpkin_gen_ok G block biome" and h: "shape_height G gs = 16 * sects"
  shows "\<exists>c. proto_to_chunk_data G proto gs = Some c \<and> length (section_slice (sections_of c)) = sects \<and>
    chunk_x c = proto_x G proto \<and> chunk_z c = proto_z G proto \<and>
    (\<forall>i < sects. block (section_slice (sections_of c) ! i) = (\<lambda>(x, y, z). if x < 16 \<and> y < 16 \<and> z < 16
        then of_nat (get_block_state_raw G proto (of_nat x) (of_nat (i * 16 + y)) (of_nat z))
        else block (sub_default G) (x, y, z))) \<and>
    (\<forall>i < sects. biome (section_slice (sections_of c) ! i) = (\<lambda>(x, y, z). if x < 4 \<and> y < 4 \<and> z < 4
        then of_nat (get_biome_id G proto (of_nat x)
          (word_of_int (shape_min_y G gs div 4) + of_nat (i * 4 + y)) (of_nat z))
        else biome (sub_default G) (x, y, z)))"
proof -
  have sizes: "block_palette_size G = 16" "biome_palette_size G = 4" "\<And>n. biome_from_block G n = n div 4"
    and blocks: "palette_ok (set_block_state G) block biome 16" and biomes: "palette_ok (set_biome G) biome block 4"
    using ok by (simp_all add: pumpkin_gen_ok_def)
  let ?subs = "replicate sects (sub_default G)"
  obtain s1 where s1: "copy_rows (set_biome G) 4 4 0 (map (biome_row G proto gs) [0..<sects * 4]) ?subs = Some s1"
    "length s1 = sects" "map block s1 = map block ?subs"
    "\<forall>i < sects. biome (s1 ! i) = (\<lambda>(a, b, c). if a < 4 \<and> b < 4 \<and> c < 4 \<and> 0 \<le> i * 4 + b \<and> i * 4 + b < 0 + sects * 4
        then (case (a, c) of (x, z) \<Rightarrow> of_nat (get_biome_id G proto (of_nat x)
          (word_of_int (shape_min_y G gs div 4) + of_nat (i * 4 + b)) (of_nat z)))
        else biome (?subs ! i) (a, b, c))"
    using copy_rows_spec [OF biomes, of 0 "\<lambda>y (x, z). of_nat (get_biome_id G proto (of_nat x)
        (word_of_int (shape_min_y G gs div 4) + of_nat y) (of_nat z))" "sects * 4" ?subs]
    by (auto simp: biome_row_plane sizes cong: map_cong)
  obtain s2 where s2: "copy_rows (set_block_state G) 16 16 0 (map (block_row G proto) [0..<sects * 16]) s1 = Some s2"
    "length s2 = sects" "map biome s2 = map biome s1"
    "\<forall>i < sects. block (s2 ! i) = (\<lambda>(a, b, c). if a < 16 \<and> b < 16 \<and> c < 16 \<and> 0 \<le> i * 16 + b \<and> i * 16 + b < 0 + sects * 16
        then (case (a, c) of (x, z) \<Rightarrow> of_nat (get_block_state_raw G proto (of_nat x) (of_nat (i * 16 + b)) (of_nat z)))
        else block (s1 ! i) (a, b, c))"
    using copy_rows_spec [OF blocks, of 0 "\<lambda>y (x, z). of_nat (get_block_state_raw G proto (of_nat x)
        (of_nat y) (of_nat z))" "sects * 16" s1] s1(2)
    by (auto simp: block_row_plane cong: map_cong)
  have keep: "block (s1 ! i) = block (sub_default G)" "biome (s2 ! i) = biome (s1 ! i)" if "i < sects" for i
    using that s1(2,3) s2(2,3) by (metis length_replicate nth_map nth_replicate)+
  have heights: "nat (biome_from_block G (int (shape_height G gs))) = sects * 4"
    "shape_height G gs div block_palette_size G = sects" "[0..<shape_height G gs] = [0..<sects * 16]"
    using h sizes by (simp_all add: mult.commute)
  obtain c where c: "proto_to_chunk_data G proto gs = Some c" "section_slice (sections_of c) = s2"
      "chunk_x c = proto_x G proto" "chunk_z c = proto_z G proto"
    using s1(1) s2(1) unfolding proto_to_chunk_data_def heights sizes(2) Let_def by simp
  have "block (s2 ! i) = (\<lambda>(x, y, z). if x < 16 \<and> y < 16 \<and> z < 16
        then of_nat (get_block_state_raw G proto (of_nat x) (of_nat (i * 16 + y)) (of_nat z))
        else block (sub_default G) (x, y, z))" if "i < sects" for i
    using s2(4) keep(1) [OF that] that by (auto simp: fun_eq_iff)
  moreover have "biome (s2 ! i) = (\<lambda>(x, y, z). if x < 4 \<and> y < 4 \<and> z < 4
        then of_nat (get_biome_id G proto (of_nat x)
          (word_of_int (shape_min_y G gs div 4) + of_nat (i * 4 + y)) (of_nat z))
        else biome (sub_default G) (x, y, z))" if "i < sects" for i
    unfolding keep(2) [OF that] using s1(4) that by (auto simp: fun_eq_iff)
  ultimately show ?thesis using c s2(2) by auto
qed

subsection \<open>Properties\<close>

text \<open>A Pumpkin for the witness: two sections, each two functions from positions; the block at
  \<open>(x, y, z)\<close> is \<open>x + 100 y + 3 z\<close>, the biome \<open>y + 250\<close>.\<close>

type_synonym demo_section = "(nat \<times> nat \<times> nat \<Rightarrow> u16) \<times> (nat \<times> nat \<times> nat \<Rightarrow> u8)"

definition demo_gen ::
    "(u64, base_router, unit, unit, i32 \<times> i32, demo_section, unit, nat) pumpkin_gen" where
  "demo_gen = \<lparr>random_config_new = (\<lambda>seed _. seed), config_seed = id, hash_seed = ucast,
     routers_generate = (\<lambda>r _. r), cache_from_random = (\<lambda>_. ()), generation_settings = (\<lambda>_. Some ()),
     shape_height = (\<lambda>_. 32), shape_min_y = (\<lambda>_. - 16), default_state = (\<lambda>_. 1),
     proto_new = (\<lambda>x z _ _ _. (x, z)), step_to_biomes = (\<lambda>_ _ p. p), step_to_noise = (\<lambda>_ _ _ p. p),
     step_to_surface = (\<lambda>_ _ _ _ p. p), proto_x = fst, proto_z = snd,
     get_biome_id = (\<lambda>p x y z. nat (sint y + 250)),
     get_block_state_raw = (\<lambda>p x y z. unat x + 100 * unat y + 3 * unat z),
     block_palette_size = 16, biome_palette_size = 4, biome_from_block = (\<lambda>n. n div 4),
     sub_default = (\<lambda>_. 0, \<lambda>_. 0),
     set_biome = (\<lambda>x y z v (bl, bi). (bl, bi((x, y, z) := v))),
     set_block_state = (\<lambda>x y z v (bl, bi). (bl((x, y, z) := v), bi)),
     default_heightmap = (), calculate_heightmap = (\<lambda>_. ()), light_filled = id, light_empty = id,
     data_to_bytes = (\<lambda>c. Some [ucast (chunk_x c), ucast (chunk_z c), of_nat (length (section_slice (sections_of c))),
       ucast (fst (section_slice (sections_of c) ! 1) (2, 3, 1)), snd (section_slice (sections_of c) ! 1) (0, 1, 0)])\<rparr>"

lemma demo_gen_ok: "pumpkin_gen_ok demo_gen fst snd"
  by (simp add: pumpkin_gen_ok_def palette_ok_def demo_gen_def split: prod.splits)

text \<open>C37: with the settings of its dimension the vanilla generator never panics: every index into the
  rows and the sections is in range. The chunk it serialises has the coordinates of Pumpkin's
  proto chunk, its every block the proto chunk's block at that height above the bottom, its every
  biome the one at that absolute height, both cut to their width; the stages' times are recorded,
  the serialiser's only if it succeeds.\<close>

theorem vanilla_copies_all:
  fixes G :: "('rc, 'nr, 'tc, 'gs, 'pc, 'sub, 'hm, 'light) pumpkin_gen"
  assumes "pumpkin_gen_ok G block biome" and "get_settings G v = Some gs" and "shape_height G gs = 16 * sects"
  shows "let p = vanilla_proto G v gs cx cz;
      ops = record_generation_biomes (clock 0) @ record_generation_noise (clock 1) @
        record_generation_surface (clock 2) @ record_generation_conversion (clock 3)
    in \<exists>c. vanilla_generate_chunk G v clock cx cz =
        Some (case data_to_bytes G c of None \<Rightarrow> (Inl Generation_failed, ops)
          | Some bytes \<Rightarrow> (Inr bytes, ops @ record_serialization (clock 4))) \<and>
      length (section_slice (sections_of c)) = sects \<and> chunk_x c = proto_x G p \<and> chunk_z c = proto_z G p \<and>
      (\<forall>i < sects. \<forall>x < 16. \<forall>y < 16. \<forall>z < 16. block (section_slice (sections_of c) ! i) (x, y, z) =
         of_nat (get_block_state_raw G p (of_nat x) (of_nat (i * 16 + y)) (of_nat z))) \<and>
      (\<forall>i < sects. \<forall>x < 4. \<forall>y < 4. \<forall>z < 4. biome (section_slice (sections_of c) ! i) (x, y, z) =
         of_nat (get_biome_id G p (of_nat x)
           (word_of_int (shape_min_y G gs div 4) + of_nat (i * 4 + y)) (of_nat z)))"
proof -
  obtain c where c: "proto_to_chunk_data G (vanilla_proto G v gs cx cz) gs = Some c"
    and facts: "length (section_slice (sections_of c)) = sects" "chunk_x c = proto_x G (vanilla_proto G v gs cx cz)"
      "chunk_z c = proto_z G (vanilla_proto G v gs cx cz)"
    and cells: "\<forall>i < sects. block (section_slice (sections_of c) ! i) = (\<lambda>(x, y, z). if x < 16 \<and> y < 16 \<and> z < 16
        then of_nat (get_block_state_raw G (vanilla_proto G v gs cx cz) (of_nat x) (of_nat (i * 16 + y)) (of_nat z))
        else block (sub_default G) (x, y, z))"
      "\<forall>i < sects. biome (section_slice (sections_of c) ! i) = (\<lambda>(x, y, z). if x < 4 \<and> y < 4 \<and> z < 4
        then of_nat (get_biome_id G (vanilla_proto G v gs cx cz) (of_nat x)
          (word_of_int (shape_min_y G gs div 4) + of_nat (i * 4 + y)) (of_nat z))
        else biome (sub_default G) (x, y, z))"
    using chunk_data_copied [OF assms(1,3), of "vanilla_proto G v gs cx cz"] by blast
  show ?thesis
    unfolding Let_def
    by (rule exI [of _ c]) (simp add: vanilla_generate_chunk_def assms(2) c Let_def facts cells del: One_nat_def)
qed

theorem vanilla_copies_all_witness:
  "\<exists>ops. vanilla_generate_chunk demo_gen (vanilla_new demo_gen 7) (\<lambda>_. 9) 5 6 = Some (Inr [5, 6, 2, 113, 251], ops)"
proof -
  have gs: "get_settings demo_gen (vanilla_new demo_gen 7) = Some ()"
    by (simp add: get_settings_def demo_gen_def)
  have h: "shape_height demo_gen () = 16 * 2" by (simp add: demo_gen_def)
  have proto: "vanilla_proto demo_gen (vanilla_new demo_gen 7) () 5 6 = (5, 6)"
    by (simp add: vanilla_proto_def demo_gen_def)
  have reads: "proto_x demo_gen = fst" "proto_z demo_gen = snd" "shape_min_y demo_gen () = - 16"
    "get_biome_id demo_gen = (\<lambda>p x y z. nat (sint y + 250))"
    "get_block_state_raw demo_gen = (\<lambda>p x y z. unat x + 100 * unat y + 3 * unat z)"
    "data_to_bytes demo_gen = (\<lambda>c. Some [ucast (chunk_x c), ucast (chunk_z c), of_nat (length (section_slice (sections_of c))),
       ucast (fst (section_slice (sections_of c) ! 1) (2, 3, 1)), snd (section_slice (sections_of c) ! 1) (0, 1, 0)])"
    by (simp_all add: demo_gen_def)
  obtain c ops where c: "vanilla_generate_chunk demo_gen (vanilla_new demo_gen 7) (\<lambda>_. 9) 5 6 =
        Some (case data_to_bytes demo_gen c of None \<Rightarrow> (Inl Generation_failed, ops)
          | Some bytes \<Rightarrow> (Inr bytes, ops @ record_serialization 9))"
      "length (section_slice (sections_of c)) = 2" "chunk_x c = 5" "chunk_z c = 6"
      "\<forall>i < 2. \<forall>x < 16. \<forall>y < 16. \<forall>z < 16. fst (section_slice (sections_of c) ! i) (x, y, z) =
         of_nat (unat (of_nat x :: i32) + 100 * unat (of_nat (i * 16 + y) :: i32) + 3 * unat (of_nat z :: i32))"
      "\<forall>i < 2. \<forall>x < 4. \<forall>y < 4. \<forall>z < 4. snd (section_slice (sections_of c) ! i) (x, y, z) =
         of_nat (nat (sint (word_of_int (- 16 div 4) + of_nat (i * 4 + y) :: i32) + 250))"
    using vanilla_copies_all [OF demo_gen_ok gs h, of 5 6 "\<lambda>_. 9"]
    unfolding Let_def proto reads fst_conv snd_conv by blast
  have "fst (section_slice (sections_of c) ! 1) (2, 3, 1) = 1905" "snd (section_slice (sections_of c) ! 1) (0, 1, 0) = 251"
    using c(5,6) by simp_all
  then show ?thesis using c(1-4) by (simp add: reads)
qed

end
