(* ===== verification/Main_Program.thy ===== *)
theory Main_Program
  imports Flat Vanilla Fuse Report
begin

text \<open>
  \<open>hoppermc/src/main.rs\<close>: the command line's choices, the start of the program with its retries,
  the end of a session, and the auto-benchmark. Mounting, signals, printing and the report files are
  the operating system's and left out, as is the parser of the command line (clap), whose result is
  \<open>args\<close>. \<open>None\<close> as the result of a start is the panic of \<open>expect\<close>, as that of an auto-benchmark a panic
  in one of its configurations.
\<close>

subsection \<open>Arguments\<close>

record args =
  mountpoint :: string
  generator_arg :: string
  seed :: u64
  storage_arg :: string
  cache_size :: nat
  radius_arg :: u8
  auto_benchmark :: bool
  benchmark_cycle_duration :: u64

text \<open>The defaults of the \<open>#[arg]\<close> attributes.\<close>

definition default_args :: args where
  "default_args = \<lparr>mountpoint = ''/mnt/region'', generator_arg = ''flat'', seed = 0, storage_arg = ''pg_raw'',
     cache_size = 500, radius_arg = 0, auto_benchmark = False, benchmark_cycle_duration = 60\<rparr>"

text \<open>\<open>to_lowercase\<close>: a string is its UTF-8 bytes, of which only ASCII letters change here; no other
  character of Unicode has a lower case among the letters of the names it is compared with.\<close>

definition lower_char :: "char \<Rightarrow> char" where
  "lower_char c = (let n = of_char c :: nat in if 65 \<le> n \<and> n \<le> 90 then char_of (n + 32) else c)"

definition to_lowercase :: "string \<Rightarrow> string" where
  "to_lowercase = map lower_char"

text \<open>The match on the storage name: \<open>None\<close> is no storage.\<close>

definition select_storage :: "args \<Rightarrow> storage_mode option" where
  "select_storage a =
     (let s = to_lowercase (storage_arg a)
      in if s = ''nostorage'' \<or> s = ''none'' \<or> s = ''stateless'' then None
         else Some (if to_lowercase (storage_arg a) = ''pg_jsonb'' then PgJsonb else PgRaw))"

datatype generator_choice = Use_flat | Use_vanilla u64

definition select_generator :: "args \<Rightarrow> generator_choice" where
  "select_generator a = (if generator_arg a = ''vanilla'' then Use_vanilla (seed a) else Use_flat)"

text \<open>The trait object. A panic of the vanilla generator, \<open>None\<close> in \<open>Vanilla\<close>, ends the process.
  \<open>clock\<close> are the stage times of a call.\<close>

definition generator_of ::
    "('sec, 'hm0, 'light0) pumpkin \<Rightarrow> hash_iter \<Rightarrow> ('rc, 'nr, 'tc, 'gs, 'pc, 'sub, 'hm, 'light) pumpkin_gen \<Rightarrow>
     (nat \<Rightarrow> nat \<Rightarrow> duration) \<Rightarrow> generator_choice \<Rightarrow> generator" where
  "generator_of P I G clock choice =
     (case choice of
        Use_flat \<Rightarrow> flat_generator P I
      | Use_vanilla n \<Rightarrow> (\<lambda>x z t.
          case vanilla_generate_chunk G (vanilla_new G n) (clock t) x z of
            Some r \<Rightarrow> r
          | None \<Rightarrow> (Inl Generator_panicked, [])))"

text \<open>\<open>format!("Gen: ...")\<close>, only made when the variable \<open>BENCHMARK\<close> is set.\<close>

definition summary_of :: "args \<Rightarrow> string" where
  "summary_of a =
     ''Gen: '' @ generator_arg a @ '' | Seed: '' @ show_nat (unat (seed a)) @ '' | Storage: '' @ storage_arg a @
     '' | Cache: '' @ show_nat (cache_size a) @ '' | Prefetch: '' @ show_nat (unat (radius_arg a))"

definition make_benchmark :: "bool \<Rightarrow> nat \<Rightarrow> args \<Rightarrow> metrics option" where
  "make_benchmark benchmark_set now a =
     (if benchmark_set then Some (metrics_new now (summary_of a)) else None)"

subsection \<open>Starting\<close>

text \<open>The retry loop \<open>for i in 0..30\<close>, from attempt \<open>i\<close> with \<open>n\<close> left: \<open>created i\<close> is the pool attempt
  \<open>i\<close> makes, if it can. Also returned are the seconds slept: two after every failure, the last one
  included.\<close>

fun connect_loop ::
    "(nat \<Rightarrow> ('db, 'n) pg_client option) \<Rightarrow> storage_mode \<Rightarrow> nat \<Rightarrow> nat \<Rightarrow> 'db \<Rightarrow> nat \<Rightarrow>
     ('db, 'n) postgres_storage option \<times> 'db \<times> nat" where
  "connect_loop created m i 0 d slept = (None, d, slept)"
| "connect_loop created m i (Suc n) d slept =
     (case postgres_new (created i) m d of
        (Inr s, d) \<Rightarrow> (Some s, d, slept)
      | (Inl e, d) \<Rightarrow> connect_loop created m (i + 1) n d (slept + 2))"

definition open_storage ::
    "(nat \<Rightarrow> ('db, 'n) pg_client option) \<Rightarrow> args \<Rightarrow> 'db \<Rightarrow> ('db, 'n) postgres_storage option option" where
  "open_storage created a d =
     (case select_storage a of
        None \<Rightarrow> Some None
      | Some m \<Rightarrow>
          (case connect_loop created m 0 30 d 0 of
             (None, _, _) \<Rightarrow> None
           | (Some s, _, _) \<Rightarrow> Some (Some s)))"

text \<open>What the program is linked against, and the clocks.\<close>

record ('sec, 'hm0, 'light0, 'rc, 'nr, 'tc, 'gs, 'pc, 'sub, 'hm, 'light, 'n, 'c) libraries =
  the_pumpkin :: "('sec, 'hm0, 'light0) pumpkin"
  the_iter :: hash_iter
  the_gen :: "('rc, 'nr, 'tc, 'gs, 'pc, 'sub, 'hm, 'light) pumpkin_gen"
  the_nums :: "'n num_lib"
  the_lru :: "'c lru"
  the_codec :: codec
  the_nbt :: nbt_lib
  stage_times :: "nat \<Rightarrow> nat \<Rightarrow> duration"
  call_times :: "nat \<Rightarrow> duration"

text \<open>What \<open>main\<close> mounts: the virtual file over the chosen generator and storage. Without a storage
  the store is \<open>unused\<close>.\<close>

definition virtual_file_for where
  "virtual_file_for X choice unused st bench entries radius =
     (let gen = generator_of (the_pumpkin X) (the_iter X) (the_gen X) (stage_times X) choice;
          (ops, s) = (case st of
             None \<Rightarrow> (None, unused)
           | Some s \<Rightarrow> (Some (postgres_ops (the_nbt X) (the_nums X)), s))
      in virtual_file_new gen ops (the_lru X) (the_codec X) (the_nbt X) (call_times X) s bench entries radius)"

text \<open>\<open>main\<close> up to the mount, with \<open>auto_benchmark\<close> unset; with it, \<open>main\<close> is \<open>run_auto_benchmark\<close>.
  \<open>None\<close> is the end of the program with an error.\<close>

definition start where
  "start X created benchmark_set now a d unused =
     (case open_storage created a d of
        None \<Rightarrow> None
      | Some st \<Rightarrow>
          Some (virtual_file_for X (select_generator a) unused st
            (make_benchmark benchmark_set now a) (cache_size a) (radius_arg a)))"

subsection \<open>The end of a session\<close>

text \<open>With a benchmark the size of the database is recorded, if it can be had, and the report made.\<close>

definition record_size :: "('s, 'c) vf_env \<Rightarrow> ('s, 'c) vf_state \<Rightarrow> ('s, 'c) vf_state" where
  "record_size E s =
     (case storage E of
        None \<Rightarrow> s
      | Some ops \<Rightarrow>
          (case get_total_size ops (store s) of
             (Inr n, d) \<Rightarrow> note_metrics (record_db_size n) (s\<lparr>store := d\<rparr>)
           | (Inl e, d) \<Rightarrow> s\<lparr>store := d, aborted := aborted s \<or> e = Row_type_panic\<rparr>))"

definition shutdown ::
    "(real \<Rightarrow> real) \<Rightarrow> (nat \<Rightarrow> string) \<Rightarrow> nat \<Rightarrow> ('s, 'c) vf_env \<Rightarrow> ('s, 'c) vf_state \<Rightarrow>
     string option \<times> ('s, 'c) vf_state" where
  "shutdown rnd show_duration now E s =
     (if benchmark s = None then (None, s)
      else let s = record_size E s
           in (map_option (generate_report rnd show_duration now) (benchmark s), s))"

subsection \<open>The auto-benchmark\<close>

definition bench_generators :: "args \<Rightarrow> (string \<times> generator_choice) list" where
  "bench_generators a = [(''flat'', Use_flat), (''vanilla'', Use_vanilla (seed a))]"

definition storage_configs :: "(string \<times> storage_mode option) list" where
  "storage_configs = [(''nostorage'', None), (''pg_raw'', Some PgRaw), (''pg_jsonb'', Some PgJsonb)]"

text \<open>The stress thread. \<open>stopped k\<close> is what its \<open>k\<close>-th look at the flag sees; the loops carry the
  number of looks and the offsets read so far. The innermost body reads the header's first half and
  then the slot of \<open>(x, z)\<close>.\<close>

type_synonym stress_state = "nat \<times> u64 list"

definition rem32 :: "i32 \<Rightarrow> i32" where
  "rem32 x = word_of_int (sint x mod 32)"

fun stress_z :: "(nat \<Rightarrow> bool) \<Rightarrow> i32 \<Rightarrow> i32 list \<Rightarrow> stress_state \<Rightarrow> stress_state" where
  "stress_z stopped x [] st = st"
| "stress_z stopped x (z # zs) (k, out) =
     (if stopped k then (k + 1, out)
      else stress_z stopped x zs (k + 1, out @ [0, get_chunk_file_offset (rem32 x) (rem32 z)]))"

fun stress_x :: "(nat \<Rightarrow> bool) \<Rightarrow> i32 list \<Rightarrow> i32 list \<Rightarrow> stress_state \<Rightarrow> stress_state" where
  "stress_x stopped zs [] st = st"
| "stress_x stopped zs (x # xs) st =
     (case stress_z stopped x zs st of
        (k, out) \<Rightarrow> if stopped k then (k + 1, out) else stress_x stopped zs xs (k + 1, out))"

text \<open>\<open>while radius < 15 && !stop\<close>, \<open>radius\<close> counting up: the radii that are left.\<close>

fun stress_radii :: "(nat \<Rightarrow> bool) \<Rightarrow> nat list \<Rightarrow> stress_state \<Rightarrow> stress_state" where
  "stress_radii stopped [] st = st"
| "stress_radii stopped (r # rs) (k, out) =
     (if stopped k then (k + 1, out)
      else let square = i32_range (- int r) (int r + 1)
           in stress_radii stopped rs (stress_x stopped square square (k + 1, out)))"

definition stress_offsets :: "(nat \<Rightarrow> bool) \<Rightarrow> u64 list" where
  "stress_offsets stopped = snd (stress_radii stopped [0..<15] (0, []))"

definition stress_reads :: "('s, 'c) vf_env \<Rightarrow> u64 list \<Rightarrow> ('s, 'c) vf_state \<Rightarrow> ('s, 'c) vf_state" where
  "stress_reads E offsets s = fold (\<lambda>offset s. snd (read_at E offset 4096 0 0 s)) offsets s"

text \<open>One configuration: it is skipped when its one attempt to connect fails. The thread is not
  joined; \<open>flag j\<close> is what it sees of the flag and its reads are those done when the report of
  configuration \<open>j\<close> is made. A panic in one of them ends the process. \<open>now j\<close> are the times at the begin and the end.\<close>

definition config_storage ::
    "('db, 'n) pg_client option \<Rightarrow> storage_mode option \<Rightarrow> 'db \<Rightarrow>
     ('db, 'n) postgres_storage option option \<times> 'db" where
  "config_storage created m d =
     (case m of
        None \<Rightarrow> (Some None, d)
      | Some m \<Rightarrow>
          (case postgres_new created m d of
             (Inl e, d) \<Rightarrow> (None, d)
           | (Inr s, d) \<Rightarrow> (Some (Some s), d)))"

definition config_report where
  "config_report X rnd show_duration a unused flag t0 t1 gen_name choice storage_name st =
     (case virtual_file_for X choice unused st
         (Some (metrics_new t0 (''Gen: '' @ gen_name @ '' | Storage: '' @ storage_name))) (cache_size a) (radius_arg a) of
        (E, s) \<Rightarrow> shutdown rnd show_duration t1 E (stress_reads E (stress_offsets flag) s))"

text \<open>The two nested loops over the configurations, as one over their pairs, \<open>j\<close> counting them; each
  section of the full report comes with the names of its configuration.\<close>

definition section_text :: "string \<Rightarrow> string \<Rightarrow> string \<Rightarrow> string" where
  "section_text gen_name storage_name report =
     ''## Configuration: '' @ gen_name @ '' x '' @ storage_name @ nl @ nl @ ''```'' @ nl @ report @ nl @ ''```'' @ nl @ nl"

definition all_configs :: "args \<Rightarrow> ((string \<times> generator_choice) \<times> string \<times> storage_mode option) list" where
  "all_configs a = concat (map (\<lambda>g. map (\<lambda>st. (g, st)) storage_configs) (bench_generators a))"

fun auto_run where
  "auto_run X rnd show_duration a created unused flag now j [] d = Some []"
| "auto_run X rnd show_duration a created unused flag now j (((gen_name, choice), storage_name, m) # configs) d =
     (case config_storage (created j) m d of
        (None, d) \<Rightarrow> auto_run X rnd show_duration a created unused flag now (j + 1) configs d
      | (Some st, d) \<Rightarrow>
          (case config_report X rnd show_duration a unused (flag j) (now (2 * j)) (now (2 * j + 1))
              gen_name choice storage_name st of
             (report, s) \<Rightarrow>
               if aborted s then None
               else map_option ((#) (gen_name, storage_name,
                   section_text gen_name storage_name (case report of Some t \<Rightarrow> t | None \<Rightarrow> [])))
                 (auto_run X rnd show_duration a created unused flag now (j + 1) configs
                   (case st of None \<Rightarrow> d | Some _ \<Rightarrow> db (store s)))))"

definition run_auto_benchmark where
  "run_auto_benchmark X rnd show_duration a created unused flag now d =
     map_option (\<lambda>sections. ''# HopperMC Auto-Benchmark Suite'' @ nl @ nl @ concat (map (\<lambda>(g, st, t). t) sections))
       (auto_run X rnd show_duration a created unused flag now 0 (all_configs a) d)"

subsection \<open>What a successful start gives\<close>

lemma postgres_new_Inr:
  assumes "postgres_new created m d = (Inr s, d')"
  obtains p where "created = Some p" and "pool s = p" and "mode s = m" and "d' = db s"
proof -
  obtain p where p: "created = Some p" using assms by (cases created) (simp_all add: postgres_new_def)
  have keep: "pool (snd (init_schema t)) = pool t \<and> mode (snd (init_schema t)) = mode t" for t :: "('a, 'b) postgres_storage"
    by (simp add: init_schema_def with_client_def call_def case_prod_beta split: storage_mode.split)
  obtain r t where i: "init_schema \<lparr>pool = p, mode = m, db = d\<rparr> = (r, t)" by fastforce
  have "s = t" "d' = db s"
    using assms p i by (auto simp: postgres_new_def split: sum.splits unit.splits)
  moreover have "pool t = p" "mode t = m" using keep [of "\<lparr>pool = p, mode = m, db = d\<rparr>"] i by simp_all
  ultimately show ?thesis using p by (intro that) simp_all
qed

lemma connect_loop_Some:
  assumes "connect_loop created m i n d slept = (Some s, d', t)"
  shows "mode s = m \<and> (\<exists>k. created k = Some (pool s))"
  using assms
proof (induction n arbitrary: i d slept)
  case (Suc n)
  obtain r d1 where r: "postgres_new (created i) m d = (r, d1)" by fastforce
  show ?case
  proof (cases r)
    case (Inl e)
    with Suc r show ?thesis by simp
  next
    case (Inr s1)
    with Suc.prems r have "s1 = s" by simp
    with r Inr show ?thesis by (auto elim: postgres_new_Inr)
  qed
qed simp

text \<open>The database after the first \<open>i\<close> attempts, and when an attempt fails: no pool, no connection, or
  no table.\<close>

fun tried :: "(nat \<Rightarrow> ('db, 'n) pg_client option) \<Rightarrow> storage_mode \<Rightarrow> nat \<Rightarrow> 'db \<Rightarrow> 'db" where
  "tried created m 0 d = d"
| "tried created m (Suc i) d = snd (postgres_new (created i) m (tried created m i d))"

definition attempt_fails :: "('db, 'n) pg_client option \<Rightarrow> table \<Rightarrow> 'db \<Rightarrow> bool" where
  "attempt_fails created t d \<longleftrightarrow>
     (case created of
        None \<Rightarrow> True
      | Some p \<Rightarrow>
          (case pool_get p d of
             (reached, d1) \<Rightarrow> \<not> reached \<or> \<not> fst (pg_batch_execute p (Create_table t) d1)))"

definition table_of :: "storage_mode \<Rightarrow> table" where
  "table_of m = (if m = PgJsonb then Chunks_jsonb else Chunks_raw)"

lemma postgres_new_run:
  assumes m: "m = PgRaw \<or> m = PgJsonb" and g: "pool_get p d = (reached, da)"
    and b: "pg_batch_execute p (Create_table (table_of m)) da = (made, dc)"
  shows "postgres_new (Some p) m d =
    (if \<not> reached then (Inl No_connection, da) else if \<not> made then (Inl Init_failed, dc)
     else (Inr \<lparr>pool = p, mode = m, db = dc\<rparr>, dc))"
proof -
  have "init_schema \<lparr>pool = p, mode = m, db = d\<rparr> =
      (if \<not> reached then (Inl No_connection, \<lparr>pool = p, mode = m, db = da\<rparr>)
       else (done_or Init_failed made, \<lparr>pool = p, mode = m, db = dc\<rparr>))"
    using m b by (elim disjE) (simp_all add: init_schema_def with_client_def g call_def table_of_def)
  then show ?thesis by (simp add: postgres_new_def done_or_def split: unit.split)
qed

lemma postgres_new_fails:
  assumes "m = PgRaw \<or> m = PgJsonb"
  shows "(\<exists>e. fst (postgres_new created m d) = Inl e) \<longleftrightarrow> attempt_fails created (table_of m) d"
proof (cases created)
  case (Some p)
  obtain reached d1 where g: "pool_get p d = (reached, d1)" by fastforce
  obtain made d2 where b: "pg_batch_execute p (Create_table (table_of m)) d1 = (made, d2)" by fastforce
  show ?thesis by (simp add: Some postgres_new_run [OF assms g b] attempt_fails_def g b)
qed (simp add: postgres_new_def attempt_fails_def)

lemma postgres_new_view:
  assumes "m = PgRaw \<or> m = PgJsonb" and "\<forall>p. created = Some p \<longrightarrow> pg_ok p jb view"
  shows "view (snd (postgres_new created m d)) = view d"
proof (cases created)
  case (Some p)
  then have ok: "pg_ok p jb view" using assms(2) by blast
  obtain reached d1 where g: "pool_get p d = (reached, d1)" by fastforce
  obtain made d2 where b: "pg_batch_execute p (Create_table (table_of m)) d1 = (made, d2)" by fastforce
  have "view d1 = view d" "view d2 = view d1"
    using pg_okD(1) [OF ok, of d] pg_okD(3) [OF ok, of "table_of m" d1] g b by simp_all
  then show ?thesis by (simp add: Some postgres_new_run [OF assms(1) g b])
qed (simp add: postgres_new_def)

lemma tried_view:
  assumes "m = PgRaw \<or> m = PgJsonb" and "\<forall>i p. created i = Some p \<longrightarrow> pg_ok p jb view"
  shows "view (tried created m k d) = view d"
proof (induction k)
  case (Suc k)
  have "\<forall>p. created k = Some p \<longrightarrow> pg_ok p jb view" using assms(2) by blast
  with Suc show ?case by (simp add: postgres_new_view [OF assms(1)])
qed simp

lemma connect_loop_fails:
  "(\<forall>j < n. \<exists>e. fst (postgres_new (created (i + j)) m (tried created m (i + j) d)) = Inl e) \<Longrightarrow>
     connect_loop created m i (n + k) (tried created m i d) slept =
       connect_loop created m (i + n) k (tried created m (i + n) d) (slept + 2 * n)"
proof (induction n arbitrary: i slept)
  case (Suc n)
  obtain e where "fst (postgres_new (created i) m (tried created m i d)) = Inl e" using Suc.prems [rule_format, of 0] by auto
  then have "postgres_new (created i) m (tried created m i d) = (Inl e, tried created m (i + 1) d)"
    by (simp add: prod_eq_iff)
  then have "connect_loop created m i (Suc (n + k)) (tried created m i d) slept =
      connect_loop created m (i + 1) (n + k) (tried created m (i + 1) d) (slept + 2)"
    by (simp only: connect_loop.simps prod.case sum.case)
  moreover have "\<exists>e. fst (postgres_new (created (i + 1 + j)) m (tried created m (i + 1 + j) d)) = Inl e" if "j < n" for j
    using Suc.prems [rule_format, of "Suc j"] that by simp
  ultimately show ?case using Suc.IH [of "i + 1" "slept + 2"] by (simp del: tried.simps connect_loop.simps)
qed simp

lemma connect_loop_down:
  assumes "\<forall>j < n. created j = None"
  shows "connect_loop created m 0 (n + k) d 0 = connect_loop created m n k d (2 * n)"
proof -
  have "tried created m j d = d" if "j \<le> n" for j
    using that by (induction j) (simp_all add: assms postgres_new_def)
  then show ?thesis
    using connect_loop_fails [of n created 0 m d k 0] assms by (simp add: postgres_new_def)
qed

subsection \<open>The stress test\<close>

lemma stress_z_length:
  assumes "\<forall>j \<ge> n. stopped j" and "stress_z stopped x zs (k, out) = (k', out')"
  shows "length out' + 2 * (n - k') \<le> length out + 2 * (n - k) \<and> k \<le> k'"
  using assms(2)
proof (induction zs arbitrary: k out)
  case (Cons z zs)
  show ?case
  proof (cases "stopped k")
    case True
    with Cons.prems show ?thesis by auto
  next
    case False
    then have "k < n" using assms(1) by (meson leI)
    then have "n - k = Suc (n - (k + 1))" by simp
    with False Cons.prems Cons.IH [of "k + 1" "out @ [0, get_chunk_file_offset (rem32 x) (rem32 z)]"]
    show ?thesis by simp
  qed
qed simp

lemma stress_x_length:
  assumes "\<forall>j \<ge> n. stopped j" and "stress_x stopped zs xs (k, out) = (k', out')"
  shows "length out' + 2 * (n - k') \<le> length out + 2 * (n - k) \<and> k \<le> k'"
  using assms(2)
proof (induction xs arbitrary: k out)
  case (Cons x xs)
  obtain k1 out1 where z: "stress_z stopped x zs (k, out) = (k1, out1)" by fastforce
  note one = stress_z_length [OF assms(1) z]
  show ?case
  proof (cases "stopped k1")
    case True
    with Cons.prems z one show ?thesis by auto
  next
    case False
    with Cons.prems z one Cons.IH [of "k1 + 1" out1] show ?thesis by simp linarith
  qed
qed simp

lemma stress_radii_length:
  assumes "\<forall>j \<ge> n. stopped j"
  shows "length (snd (stress_radii stopped rs (k, out))) \<le> length out + 2 * (n - k)"
proof (induction rs arbitrary: k out)
  case (Cons r rs)
  show ?case
  proof (cases "stopped k")
    case False
    let ?square = "i32_range (- int r) (int r + 1)"
    obtain k1 out1 where x: "stress_x stopped ?square ?square (k + 1, out) = (k1, out1)" by fastforce
    have "length out1 + 2 * (n - k1) \<le> length out + 2 * (n - (k + 1))"
      using stress_x_length [OF assms x] by simp
    with Cons.IH [of k1 out1] False x show ?thesis by simp
  qed simp
qed simp

lemma stress_z_free:
  "stress_z (\<lambda>_. False) x zs (k, out) = (k + length zs,
     out @ concat (map (\<lambda>z. [0, get_chunk_file_offset (rem32 x) (rem32 z)]) zs))"
  by (induction zs arbitrary: k out) simp_all

lemma stress_x_free:
  "\<exists>k'. stress_x (\<lambda>_. False) zs xs (k, out) = (k',
     out @ concat (map (\<lambda>x. concat (map (\<lambda>z. [0, get_chunk_file_offset (rem32 x) (rem32 z)]) zs)) xs))"
proof (induction xs arbitrary: k out)
  case (Cons x xs)
  obtain k' where "stress_x (\<lambda>_. False) zs xs (k + length zs + 1,
      out @ concat (map (\<lambda>z. [0, get_chunk_file_offset (rem32 x) (rem32 z)]) zs)) = (k',
      (out @ concat (map (\<lambda>z. [0, get_chunk_file_offset (rem32 x) (rem32 z)]) zs)) @
        concat (map (\<lambda>x. concat (map (\<lambda>z. [0, get_chunk_file_offset (rem32 x) (rem32 z)]) zs)) xs))"
    using Cons.IH by blast
  then show ?case by (simp add: stress_z_free)
qed simp

definition square_offsets :: "nat \<Rightarrow> u64 list" where
  "square_offsets r = concat (map (\<lambda>x. concat (map (\<lambda>z. [0, get_chunk_file_offset (rem32 x) (rem32 z)])
     (i32_range (- int r) (int r + 1)))) (i32_range (- int r) (int r + 1)))"

lemma stress_radii_free:
  "snd (stress_radii (\<lambda>_. False) rs (k, out)) = out @ concat (map square_offsets rs)"
proof (induction rs arbitrary: k out)
  case (Cons r rs)
  let ?square = "i32_range (- int r) (int r + 1)"
  obtain k' where "stress_x (\<lambda>_. False) ?square ?square (k + 1, out) = (k', out @ square_offsets r)"
    using stress_x_free [of ?square ?square "k + 1" out] unfolding square_offsets_def by blast
  then show ?case using Cons.IH by simp
qed simp

lemma square_offsets_length: "length (square_offsets r) = 2 * (2 * r + 1)\<^sup>2"
proof -
  have two: "length (concat (map (\<lambda>z. [0, f z]) zs)) = 2 * length zs" for f :: "i32 \<Rightarrow> u64" and zs
    by (induction zs) simp_all
  have const: "length (concat (map g xs)) = c * length xs" if "\<And>x. length (g x) = c" for g :: "i32 \<Rightarrow> u64 list" and c xs
    using that by (induction xs) simp_all
  have "length (i32_range (- int r) (int r + 1)) = 2 * r + 1" by (simp add: i32_range_def)
  then show ?thesis
    unfolding square_offsets_def by (subst const [OF two]) (simp add: power2_eq_square)
qed

subsection \<open>Properties\<close>

text \<open>C39: the start waits for the database. An attempt fails exactly if no pool can be made, no connection
  had, or the table not created. If attempt \<open>k < 30\<close> is the first that does not, the program has slept
  two seconds for each attempt before it and runs on that connection; if all thirty fail, it has slept
  sixty seconds and panics. Failed attempts leave the stored chunks alone.\<close>

theorem startup_retries:
  assumes "select_storage a = Some m"
  shows "(start X created benchmark_set now a d unused = None \<longleftrightarrow>
       (\<forall>i < 30. attempt_fails (created i) (table_of m) (tried created m i d))) \<and>
    ((\<forall>i < 30. attempt_fails (created i) (table_of m) (tried created m i d)) \<longrightarrow>
       connect_loop created m 0 30 d 0 = (None, tried created m 30 d, 60)) \<and>
    (\<forall>k < 30. (\<forall>i < k. attempt_fails (created i) (table_of m) (tried created m i d)) \<and>
         \<not> attempt_fails (created k) (table_of m) (tried created m k d) \<longrightarrow>
       (\<exists>s d'. postgres_new (created k) m (tried created m k d) = (Inr s, d') \<and>
          connect_loop created m 0 30 d 0 = (Some s, d', 2 * k) \<and>
          start X created benchmark_set now a d unused =
            Some (virtual_file_for X (select_generator a) unused (Some s) (make_benchmark benchmark_set now a)
              (cache_size a) (radius_arg a)))) \<and>
    ((\<forall>i p. created i = Some p \<longrightarrow> pg_ok p jb view) \<longrightarrow> (\<forall>k. view (tried created m k d) = view d))"
proof -
  let ?new = "\<lambda>i. postgres_new (created i) m (tried created m i d)"
  let ?fails = "\<lambda>i. attempt_fails (created i) (table_of m) (tried created m i d)"
  have m: "m = PgRaw \<or> m = PgJsonb" using assms by (auto simp: select_storage_def Let_def split: if_splits)
  note fails = postgres_new_fails [OF m]
  have down: "connect_loop created m 0 30 d 0 = (None, tried created m 30 d, 60)" if "\<forall>i < 30. ?fails i"
    using connect_loop_fails [of 30 created 0 m d 0 0] that by (simp add: fails)
  have up: "\<exists>s d'. ?new k = (Inr s, d') \<and> connect_loop created m 0 30 d 0 = (Some s, d', 2 * k)"
    if "k < 30" "\<forall>i < k. ?fails i" "\<not> ?fails k" for k
  proof -
    have "connect_loop created m 0 (k + Suc (29 - k)) d 0 = connect_loop created m k (Suc (29 - k)) (tried created m k d) (2 * k)"
      using connect_loop_fails [of k created 0 m d "Suc (29 - k)" 0] that(2) by (simp add: fails)
    moreover have "k + Suc (29 - k) = 30" using that(1) by simp
    moreover have "\<not> (\<exists>e. fst (?new k) = Inl e)" using that(3) by (simp add: fails)
    then obtain s d' where "?new k = (Inr s, d')" by (cases "?new k"; cases "fst (?new k)") auto
    ultimately show ?thesis by (intro exI [of _ s] exI [of _ d']) simp
  qed
  have start: "start X created benchmark_set now a d unused =
      (case connect_loop created m 0 30 d 0 of (None, _, _) \<Rightarrow> None
       | (Some s, _, _) \<Rightarrow> Some (virtual_file_for X (select_generator a) unused (Some s) (make_benchmark benchmark_set now a)
          (cache_size a) (radius_arg a)))"
    by (simp add: start_def open_storage_def assms split: prod.split option.split)
  have "\<forall>i < 30. ?fails i" if "start X created benchmark_set now a d unused = None"
  proof (rule ccontr)
    assume "\<not> (\<forall>i < 30. ?fails i)"
    then have some: "\<exists>i. i < 30 \<and> \<not> ?fails i" by blast
    let ?k = "LEAST i. i < 30 \<and> \<not> ?fails i"
    have k: "?k < 30" "\<not> ?fails ?k" using LeastI_ex [OF some] by blast+
    have "\<forall>i < ?k. ?fails i" using not_less_Least [of _ "\<lambda>i. i < 30 \<and> \<not> ?fails i"] k(1) by (meson less_trans)
    from up [OF k(1) this k(2)] that show False by (auto simp: start)
  qed
  moreover have "start X created benchmark_set now a d unused = None" if "\<forall>i < 30. ?fails i"
    using down [OF that] by (simp add: start)
  moreover have "\<exists>s d'. ?new k = (Inr s, d') \<and> connect_loop created m 0 30 d 0 = (Some s, d', 2 * k) \<and>
      start X created benchmark_set now a d unused = Some (virtual_file_for X (select_generator a) unused (Some s)
        (make_benchmark benchmark_set now a) (cache_size a) (radius_arg a))"
    if "k < 30" "\<forall>i < k. ?fails i" "\<not> ?fails k" for k
    using up [OF that] by (auto simp: start)
  moreover note tried_view [OF m, of created jb view _ d]
  ultimately show ?thesis using down by blast
qed

text \<open>Two attempts without an answer, two that get a connection but no table, then success.\<close>

theorem startup_retries_witness:
  "let client = mem_client :: ((i64 + f64) mem_db, i64 + f64) pg_client;
       created = (\<lambda>i. Some (if i < (2 :: nat) then client\<lparr>pool_get := Pair False\<rparr>
         else if i < 4 then client\<lparr>pg_batch_execute := \<lambda>_. Pair False\<rparr> else client))
   in connect_loop created PgRaw 0 30 (Map.empty, Map.empty) 0 = (Some (mem_storage PgRaw), (Map.empty, Map.empty), 8)"
proof -
  let ?client = "mem_client :: ((i64 + f64) mem_db, i64 + f64) pg_client"
  let ?created = "\<lambda>i. Some (if i < (2 :: nat) then ?client\<lparr>pool_get := Pair False\<rparr>
         else if i < 4 then ?client\<lparr>pg_batch_execute := \<lambda>_. Pair False\<rparr> else ?client)"
  let ?d = "(Map.empty, Map.empty) :: (i64 + f64) mem_db"
  have raw: "select_storage default_args = Some PgRaw"
    by (simp add: select_storage_def default_args_def to_lowercase_def lower_char_def Let_def)
  have new: "postgres_new (?created i) PgRaw ?d = (if i < 2 then (Inl No_connection, ?d)
      else if i < 4 then (Inl Init_failed, ?d) else (Inr (mem_storage PgRaw), ?d))" for i
    by (simp add: postgres_new_run [where da = ?d and dc = ?d and reached = "2 \<le> i" and made = "i < 2 \<or> 4 \<le> i"] mem_client_def)
  have same: "tried ?created PgRaw i ?d = ?d" for i
    by (induction i) (simp_all only: tried.simps new, simp)
  have down: "attempt_fails (?created i) (table_of PgRaw) ?d" if "i < 4" for i
    using that by (simp add: attempt_fails_def mem_client_def)
  have four: "\<not> attempt_fails (?created 4) (table_of PgRaw) ?d" by (simp add: attempt_fails_def mem_client_def)
  have "(4 :: nat) < 30" by simp
  with startup_retries [OF raw, of _ ?created _ _ ?d, THEN conjunct2, THEN conjunct2, THEN conjunct1, rule_format, of 4]
  show ?thesis using down four new [of 4] unfolding same Let_def by auto
qed

text \<open>The stress test, left alone, makes 8,990 reads: for every radius up to 14 the whole square of
  chunks again, each read of a slot after one of the header; told to stop, it makes at most two reads
  for every look at the flag that came before.\<close>

lemma stress_test_bounded:
  "length (stress_offsets (\<lambda>_. False)) = 8990 \<and>
   stress_offsets (\<lambda>_. False) = concat (map square_offsets [0..<15]) \<and>
   ((\<forall>j \<ge> n. stopped j) \<longrightarrow> length (stress_offsets stopped) \<le> 2 * n)"
proof (intro conjI impI)
  show eq: "stress_offsets (\<lambda>_. False) = concat (map square_offsets [0..<15])"
    by (simp add: stress_offsets_def stress_radii_free)
  show "length (stress_offsets (\<lambda>_. False)) = 8990"
    unfolding eq length_concat map_map comp_def square_offsets_length by (simp add: upt_rec)
  show "length (stress_offsets stopped) \<le> 2 * n" if "\<forall>j \<ge> n. stopped j"
    using stress_radii_length [OF that, of "[0..<15]" 0 "[]"] by (simp add: stress_offsets_def)
qed

end
