(* ===== verification/System.thy ===== *)
theory System
  imports Main_Program Concurrency
begin

text \<open>
  The whole program: what \<open>main\<close> starts, driven through the FUSE handlers. The laws the theories below
  rely on, for the libraries and for the database, are collected in \<open>well_set_up\<close>; a successful
  start then gives a state of which the properties of the virtual file hold, whichever generator
  was chosen.
\<close>

subsection \<open>The vanilla generator's contract\<close>

text \<open>Pumpkin's stages keep a chunk's coordinates, and its serialiser writes them.\<close>

definition gen_writes_coords ::
    "('rc, 'nr, 'tc, 'gs, 'pc, 'sub, 'hm, 'light) pumpkin_gen \<Rightarrow> nbt_lib \<Rightarrow> bool" where
  "gen_writes_coords G L \<longleftrightarrow>
     (\<forall>x z gs d n. proto_x G (proto_new G x z gs d n) = x \<and> proto_z G (proto_new G x z gs d n) = z) \<and>
     (\<forall>dim nr p. proto_x G (step_to_biomes G dim nr p) = proto_x G p \<and>
        proto_z G (step_to_biomes G dim nr p) = proto_z G p) \<and>
     (\<forall>gs rc nr p. proto_x G (step_to_noise G gs rc nr p) = proto_x G p \<and>
        proto_z G (step_to_noise G gs rc nr p) = proto_z G p) \<and>
     (\<forall>gs rc tc nr p. proto_x G (step_to_surface G gs rc tc nr p) = proto_x G p \<and>
        proto_z G (step_to_surface G gs rc tc nr p) = proto_z G p) \<and>
     (\<forall>c d. data_to_bytes G c = Some d \<longrightarrow> declared_coords L d = Some (chunk_x c, chunk_z c))"

lemma vanilla_proto_coords:
  assumes "gen_writes_coords G L"
  shows "proto_x G (vanilla_proto G v gs x z) = x" and "proto_z G (vanilla_proto G v gs x z) = z"
  using assms by (simp_all add: gen_writes_coords_def vanilla_proto_def Let_def)

lemma chunk_data_coords:
  assumes "proto_to_chunk_data G proto gs = Some c"
  shows "chunk_x c = proto_x G proto" and "chunk_z c = proto_z G proto"
  using assms by (auto simp: proto_to_chunk_data_def Let_def split: option.splits)

lemma vanilla_result:
  assumes "gen_writes_coords G L" and "vanilla_generate_chunk G v clock x z = Some (Inr d, ops)"
  shows "declared_coords L d = Some (x, z)"
proof -
  obtain gs where gs: "get_settings G v = Some gs"
    using assms(2) by (cases "get_settings G v") (simp_all add: vanilla_generate_chunk_def)
  let ?p = "vanilla_proto G v gs x z"
  obtain c where c: "proto_to_chunk_data G ?p gs = Some c"
    using assms(2) gs by (cases "proto_to_chunk_data G ?p gs") (simp_all add: vanilla_generate_chunk_def)
  have "data_to_bytes G c = Some d"
    using assms(2) gs c by (cases "data_to_bytes G c") (simp_all add: vanilla_generate_chunk_def Let_def)
  then have "declared_coords L d = Some (chunk_x c, chunk_z c)"
    using assms(1) by (simp add: gen_writes_coords_def)
  then show ?thesis by (simp add: chunk_data_coords [OF c] vanilla_proto_coords [OF assms(1)])
qed

lemma vanilla_same_result:
  "map_option fst (vanilla_generate_chunk G v clock x z) = map_option fst (vanilla_generate_chunk G v clock' x z)"
  by (simp add: vanilla_generate_chunk_def Let_def split: option.split)

interpretation vanilla: world_generator "gen_writes_coords G L" L "generator_of P I G clock (Use_vanilla n)"
  for G L P I clock n
proof (unfold_locales, goal_cases)
  case (1 x z t t')
  let ?run = "\<lambda>t. vanilla_generate_chunk G (vanilla_new G n) (clock t) x z"
  show ?case
    using vanilla_same_result [of G "vanilla_new G n" "clock t" x z "clock t'"]
    by (cases "?run t"; cases "?run t'") (simp_all add: generator_of_def)
next
  case (2 x z t d)
  then have "vanilla_generate_chunk G (vanilla_new G n) (clock t) x z =
      Some (Inr d, snd (the (vanilla_generate_chunk G (vanilla_new G n) (clock t) x z)))"
    by (cases "vanilla_generate_chunk G (vanilla_new G n) (clock t) x z") (auto simp: generator_of_def prod_eq_iff)
  with 2 show ?case by (blast intro: vanilla_result)
qed

text \<open>Either generator of the command line is one the virtual file can rely on.\<close>

lemma generator_of_ok:
  assumes "pumpkin_ok P block" and "hash_iter_ok I" and "writes_coords P L" and "gen_writes_coords G L"
  shows "generator_ok L (generator_of P I G clock choice)"
proof (cases choice)
  case Use_flat
  then show ?thesis using flat.serves [of P I L] assms by (auto simp: generator_of_def)
next
  case (Use_vanilla n)
  then show ?thesis using vanilla.serves assms(4) by simp
qed

subsection \<open>A started program\<close>

text \<open>What is relied on of the libraries, and of every database the start may find: it is lawful and,
  for as long as the session lasts, its calls succeed.\<close>

definition well_set_up where
  "well_set_up X created jb view block entries \<longleftrightarrow>
     pumpkin_ok (the_pumpkin X) block \<and> hash_iter_ok (the_iter X) \<and>
     writes_coords (the_pumpkin X) (the_nbt X) \<and> gen_writes_coords (the_gen X) (the_nbt X) \<and>
     lru_ok (the_lru X) entries \<and>
     (\<forall>i c. created i = Some c \<longrightarrow> pg_ok c jb view \<and> pg_reliable c)"

lemma virtual_file_for_fields:
  assumes "virtual_file_for X choice unused (Some s0) bench n radius = (E, s)"
  shows "generate_chunk E = generator_of (the_pumpkin X) (the_iter X) (the_gen X) (stage_times X) choice"
    and "storage E = Some (postgres_ops (the_nbt X) (the_nums X))" and "cache_ops E = the_lru X"
    and "compressor E = the_codec X" and "fastnbt E = the_nbt X" and "header_cache E = generate_header"
    and "store s = s0" and "cache s = lru_new (the_lru X) (cache_capacity n)"
  using assms by (auto simp: virtual_file_for_def virtual_file_new_def Let_def)

lemma started_serves:
  assumes up: "well_set_up X created jb view block entries"
    and run: "start X created benchmark_set now a d unused = Some (E, s)"
    and raw: "select_storage a = Some PgRaw"
    and fits: "\<forall>p b. blob_image E (raw_contents view) s p = Some b \<longrightarrow> length b \<le> 262144"
  obtains c where "served E entries (raw_contents view) verbatim (on_pool c jb view) s"
    and "honest_generator E verbatim" and "saves_verbatim E verbatim (on_pool c jb view)"
    and "storage E = Some (postgres_ops (the_nbt X) (the_nums X))" and "compressor E = the_codec X"
proof -
  obtain r d0 t where r: "connect_loop created PgRaw 0 30 d 0 = (r, d0, t)" by (rule prod_cases3)
  obtain s0 where s0: "r = Some s0" using run by (cases r) (simp_all add: start_def open_storage_def raw r)
  note loop = r [unfolded s0]
  have vf: "virtual_file_for X (select_generator a) unused (Some s0) (make_benchmark benchmark_set now a)
      (cache_size a) (radius_arg a) = (E, s)"
    using run by (simp add: start_def open_storage_def raw loop)
  note E = virtual_file_for_fields [OF vf]
  obtain k where "created k = Some (pool s0)" and m: "mode s0 = PgRaw"
    using connect_loop_Some [OF loop] by blast
  then have pg: "pg_ok (pool s0) jb view" "pg_reliable (pool s0)" using up by (auto simp: well_set_up_def)
  have on: "on_pool (pool s0) jb view (store s)" by (simp add: on_pool_def lawful_def E(7) m pg(1))
  have gen: "generator_ok (fastnbt E) (generate_chunk E)"
    unfolding E(1,5) using up by (intro generator_of_ok [where block = block]) (simp_all add: well_set_up_def)
  have lru: "lru_ok (the_lru X) entries" using up by (simp add: well_set_up_def)
  have env: "env_ok E entries (raw_contents view) verbatim (on_pool (pool s0) jb view)"
    using gen lru on_pool_storage reliable_load [OF pg(2)]
    by (auto simp: env_ok_def E(2,3,6) generator_ok_def)
  have "served E entries (raw_contents view) verbatim (on_pool (pool s0) jb view) s"
    using env on fits lru_okD(1) [OF lru] by (simp add: served_def E(8))
  moreover have "honest_generator E verbatim" by (rule generator_honest [OF gen]) simp
  moreover have "saves_verbatim E verbatim (on_pool (pool s0) jb view)"
    using reliable_save [OF pg(2)] by (simp add: saves_verbatim_def E(2))
  ultimately show ?thesis using E(2,4) by (rule that)
qed

subsection \<open>Requests of the kernel\<close>

text \<open>Reads and writes by inode, and the prefetch tasks run to their ends.\<close>

datatype fs_request = Fs_read u64 i64 u32 | Fs_write u64 i64 bytes | Fs_prefetch chunk_pos

fun fs_serve :: "('s, 'c) vf_env \<Rightarrow> fs_request \<Rightarrow> ('s, 'c) vf_state \<Rightarrow> bytes list \<times> ('s, 'c) vf_state" where
  "fs_serve E (Fs_read i off n) s = (case read_file E i off n s of (b, s') \<Rightarrow> ([b], s'))"
| "fs_serve E (Fs_write i off data) s = ([], snd (write_file E i off data s))"
| "fs_serve E (Fs_prefetch p) s = ([], prefetch E p s)"

fun fs_run :: "('s, 'c) vf_env \<Rightarrow> fs_request list \<Rightarrow> ('s, 'c) vf_state \<Rightarrow> bytes list \<times> ('s, 'c) vf_state" where
  "fs_run E [] s = ([], s)"
| "fs_run E (r # rs) s =
     (case fs_serve E r s of (out, s1) \<Rightarrow> (case fs_run E rs s1 of (outs, s2) \<Rightarrow> (out @ outs, s2)))"

text \<open>The specification: of a region's inode, the request of the virtual file; of any other file,
  nothing but an empty answer to a read.\<close>

fun region_request :: "fs_request \<Rightarrow> request option" where
  "region_request (Fs_read i off n) = map_option (\<lambda>(x, z). Read off (unat n) x z) (unpack i)"
| "region_request (Fs_write i off data) = map_option (\<lambda>(x, z). Write off data x z) (unpack i)"
| "region_request (Fs_prefetch p) = Some (Prefetch p)"

definition fs_image_step :: "('s, 'c) vf_env \<Rightarrow> fs_request \<Rightarrow> image \<Rightarrow> bytes list \<times> image" where
  "fs_image_step E r img =
     (case region_request r of
        Some q \<Rightarrow> image_step E q img
      | None \<Rightarrow> (case r of Fs_read i off n \<Rightarrow> ([[]], img) | _ \<Rightarrow> ([], img)))"

fun fs_image_run :: "('s, 'c) vf_env \<Rightarrow> fs_request list \<Rightarrow> image \<Rightarrow> bytes list \<times> image" where
  "fs_image_run E [] img = ([], img)"
| "fs_image_run E (r # rs) img =
     (case fs_image_step E r img of (out, img1) \<Rightarrow>
        (case fs_image_run E rs img1 of (outs, img2) \<Rightarrow> (out @ outs, img2)))"

definition fs_proper :: "('s, 'c) vf_env \<Rightarrow> fs_request \<Rightarrow> bool" where
  "fs_proper E r = (case region_request r of None \<Rightarrow> True | Some q \<Rightarrow> proper E q)"

lemma fs_serve_region: "region_request r = Some q \<Longrightarrow> fs_serve E r s = serve E q s"
  by (cases r) (auto simp: read_file_def write_file_def)

lemma fs_serve_other:
  "region_request r = None \<Longrightarrow> fs_serve E r s = (case r of Fs_read i off n \<Rightarrow> ([[]], s) | _ \<Rightarrow> ([], s))"
  by (cases r) (auto simp: read_file_def write_file_def)

lemma fs_serve_image:
  assumes "served E entries cont eff sinv s" and "honest_generator E eff" and "saves_verbatim E eff sinv"
    and "fs_proper E r" and "fs_serve E r s = (out, s')"
  shows "fs_image_step E r (blob_image E cont s) = (out, blob_image E cont s') \<and> served E entries cont eff sinv s'"
proof (cases "region_request r")
  case None
  then show ?thesis
    using assms(1,5) fs_serve_other [OF None, of E s] by (cases r) (auto simp: fs_image_step_def)
next
  case (Some q)
  then have "proper E q" "serve E q s = (out, s')"
    using assms(4,5) fs_serve_region [OF Some, of E s] by (simp_all add: fs_proper_def)
  from serve_image [OF assms(1-3) this] show ?thesis by (simp add: fs_image_step_def Some)
qed

lemma fs_run_image:
  assumes "served E entries cont eff sinv s" and "honest_generator E eff" and "saves_verbatim E eff sinv"
    and "list_all (fs_proper E) rs" and "fs_run E rs s = (outs, s')"
  shows "fs_image_run E rs (blob_image E cont s) = (outs, blob_image E cont s') \<and> served E entries cont eff sinv s'"
  using assms
proof (induction rs arbitrary: s outs)
  case (Cons r rs)
  obtain out s1 where r: "fs_serve E r s = (out, s1)" by fastforce
  obtain outs1 s2 where rs: "fs_run E rs s1 = (outs1, s2)" by fastforce
  have outs: "outs = out @ outs1" "s2 = s'" using Cons.prems(5) r rs by simp_all
  have "fs_proper E r" "list_all (fs_proper E) rs" using Cons.prems(4) by simp_all
  from fs_serve_image [OF Cons.prems(1-3) this(1) r] Cons.IH [OF _ Cons.prems(2,3) this(2) rs [unfolded outs]]
  show ?case by (simp add: outs)
qed simp

subsection \<open>A program for the witnesses\<close>

text \<open>Both generators write the three-byte chunks of the tiny format; the database is the one in memory,
  which the third attempt to connect finds.\<close>

definition tiny_chunk :: "i32 \<Rightarrow> i32 \<Rightarrow> bytes option" where
  "tiny_chunk x z =
     (if scast (ucast x :: i8) = x \<and> scast (ucast z :: i8) = z then Some [0, ucast x, ucast z] else None)"

definition sys_libs where
  "sys_libs = \<lparr>the_pumpkin = demo_pumpkin\<lparr>to_bytes := \<lambda>c. tiny_chunk (chunk_x c) (chunk_z c)\<rparr>, the_iter = demo_iter,
     the_gen = demo_gen\<lparr>data_to_bytes := \<lambda>c. tiny_chunk (chunk_x c) (chunk_z c)\<rparr>,
     the_nums = sum_num_lib, the_lru = list_lru, the_codec = stored_codec, the_nbt = tiny_nbt,
     stage_times = (\<lambda>_ _. 0), call_times = (\<lambda>_. 0)\<rparr>"

definition sys_db :: "nat \<Rightarrow> ((i64 + f64) mem_db, i64 + f64) pg_client option" where
  "sys_db i = (if i < 2 then None else Some mem_client)"

definition sys_start :: "((demo_storage, lru_list) vf_env \<times> (demo_storage, lru_list) vf_state) option" where
  "sys_start = start sys_libs sys_db False 0 default_args (Map.empty, Map.empty) (mem_storage PgRaw)"

lemma tiny_chunk_declared: "tiny_chunk x z = Some d \<Longrightarrow> declared_coords tiny_nbt d = Some (x, z)"
  by (auto simp: tiny_chunk_def tiny_declared split: if_splits)

lemma sys_well_set_up: "well_set_up sys_libs sys_db id mem_view id list_entries"
  unfolding well_set_up_def
  by (simp add: sys_libs_def sys_db_def pumpkin_ok_def demo_iter_ok list_lru_ok mem_client_ok mem_reliable
      writes_coords_def gen_writes_coords_def tiny_chunk_declared chunk_to_bytes_def built_chunk_def)
    (simp add: demo_pumpkin_def demo_gen_def)

lemma sys_raw: "select_storage default_args = Some PgRaw"
  by (simp add: select_storage_def default_args_def to_lowercase_def lower_char_def Let_def)

lemma sys_loop: "connect_loop sys_db PgRaw 0 30 (Map.empty, Map.empty) 0 = (Some (mem_storage PgRaw), (Map.empty, Map.empty), 4)"
proof -
  have init: "init_schema (mem_storage PgRaw :: demo_storage) = (Inr (), mem_storage PgRaw)"
    by (simp add: init_schema_def pg_eval done_or_def mem_client_def)
  have new: "postgres_new (Some mem_client) PgRaw ((Map.empty, Map.empty) :: (i64 + f64) mem_db) =
      (Inr (mem_storage PgRaw), (Map.empty, Map.empty))"
    unfolding postgres_new_def option.case init prod.case sum.case by (simp split: unit.split)
  show ?thesis
    using connect_loop_down [of 2 sys_db PgRaw 28 "(Map.empty, Map.empty)"] new
    by (simp add: sys_db_def numeral_eq_Suc)
qed

lemma sys_starts:
  obtains E s where "start sys_libs sys_db b now default_args (Map.empty, Map.empty) (mem_storage PgRaw) = Some (E, s)"
    and "virtual_file_for sys_libs (select_generator default_args) (mem_storage PgRaw)
      (Some (mem_storage PgRaw)) (make_benchmark b now default_args) (cache_size default_args) (radius_arg default_args) = (E, s)"
proof -
  obtain E s where vf: "virtual_file_for sys_libs (select_generator default_args) (mem_storage PgRaw :: demo_storage)
      (Some (mem_storage PgRaw)) (make_benchmark b now default_args) (cache_size default_args) (radius_arg default_args)
      = (E, s)" by fastforce
  then have "start sys_libs sys_db b now default_args (Map.empty, Map.empty) (mem_storage PgRaw) = Some (E, s)"
    by (simp add: start_def open_storage_def sys_raw sys_loop)
  then show ?thesis using vf by (rule that)
qed

lemma sys_started:
  obtains E s where "start sys_libs sys_db False 0 default_args (Map.empty, Map.empty) (mem_storage PgRaw) = Some (E, s)"
    and "sys_start = Some (E, s)"
    and "\<forall>p b. blob_image E (raw_contents mem_view) s p = Some b \<longrightarrow> length b \<le> 262144"
    and "carried E 8192 [0, 0, 0, 4, 2, 0, 1, 0] = Some ((1, 0), [0, 1, 0], [0, 0, 0, 4, 2, 0, 1, 0])"
proof -
  obtain E s where st: "start sys_libs sys_db False 0 default_args (Map.empty, Map.empty) (mem_storage PgRaw) = Some (E, s)"
    and vf: "virtual_file_for sys_libs (select_generator default_args) (mem_storage PgRaw)
      (Some (mem_storage PgRaw)) (make_benchmark False 0 default_args) (cache_size default_args) (radius_arg default_args) = (E, s)"
    by (rule sys_starts)
  note E = virtual_file_for_fields [OF vf]
  have gen: "length d = 3" if "generated_nbt E p = Some d" for p d
    using that
    by (auto simp: generated_nbt_def E(1) select_generator_def default_args_def generator_of_def flat_generator_def
        build_def sys_libs_def tiny_chunk_def chunk_to_bytes_def built_chunk_def split: sum.splits option.splits if_splits)
  have "length b = 8" if "blob_image E (raw_contents mem_view) s p = Some b" for p b
    using that gen
    by (cases p) (auto simp: blob_image_def blob_of_def served_nbt_def E(4,7) mem_storage_empty sys_libs_def
        compress_and_wrap_chunk_def stored_codec_def Let_def split: if_splits option.splits)
  then have fits: "\<forall>p b. blob_image E (raw_contents mem_view) s p = Some b \<longrightarrow> length b \<le> 262144" by fastforce
  have same: "compressor E = compressor (fst (demo 0))" "fastnbt E = fastnbt (fst (demo 0))"
    by (simp_all add: E(4,5) sys_libs_def)
  have "carried E off data = carried (fst (demo 0)) off data" for off data
    unfolding carried_def same by (rule refl)
  then have "carried E 8192 [0, 0, 0, 4, 2, 0, 1, 0] = Some ((1, 0), [0, 1, 0], [0, 0, 0, 4, 2, 0, 1, 0])"
    by (simp add: demo_carried)
  from that [OF st _ fits this] st show ?thesis by (simp add: sys_start_def)
qed

subsection \<open>Properties\<close>

text \<open>C1: the whole program, from its start on: whichever generator was chosen, over a database in raw
  mode whose calls succeed, with libraries that keep their contracts and a stored and generated world
  whose blobs fit their slots, every sequence of proper requests is answered as from one image of the
  world. A read of a region's file is a slice of that image; a write of a chunk to any region's file
  replaces that chunk in it; other files are empty. A sequence is proper if each of its writes to a region
  is either ignored, because it lies outside the slots or does not decode, or carries a chunk: its
  data declare coordinates and compress to a blob that fits the slot. Other writes are accepted by the code, too, but break the
  image: \<open>Eviction\<close> has the data that declare no coordinates, \<open>Serving\<close> the blob that is too long.\<close>

theorem filesystem_follows_image:
  assumes "well_set_up X created jb view block entries"
    and "start X created benchmark_set now a d unused = Some (E, s)" and "select_storage a = Some PgRaw"
    and "\<forall>p b. blob_image E (raw_contents view) s p = Some b \<longrightarrow> length b \<le> 262144"
    and "list_all (fs_proper E) rs"
  shows "fst (fs_run E rs s) = fst (fs_image_run E rs (blob_image E (raw_contents view) s))"
proof -
  obtain c where st: "served E entries (raw_contents view) verbatim (on_pool c jb view) s"
    "honest_generator E verbatim" "saves_verbatim E verbatim (on_pool c jb view)"
    by (rule started_serves [OF assms(1-4)])
  show ?thesis using fs_run_image [OF st assms(5) prod.collapse [symmetric]] by simp
qed

theorem filesystem_follows_image_witness:
  "let (E, s) = the sys_start;
       rs = [Fs_write (pack 3 (- 2)) 8192 [0, 0, 0, 4, 2, 0, 1, 0], Fs_read (pack 0 0) 8190 20, Fs_read 5 0 10]
   in fst (fs_run E rs s) = fst (fs_image_run E rs (blob_image E (raw_contents mem_view) s))"
proof -
  let ?rs = "[Fs_write (pack 3 (- 2)) 8192 [0, 0, 0, 4, 2, 0, 1, 0], Fs_read (pack 0 0) 8190 20, Fs_read 5 0 10]"
  obtain E s where st: "start sys_libs sys_db False 0 default_args (Map.empty, Map.empty) (mem_storage PgRaw) = Some (E, s)"
    and sys: "sys_start = Some (E, s)"
    and fits: "\<forall>p b. blob_image E (raw_contents mem_view) s p = Some b \<longrightarrow> length b \<le> 262144"
    and car: "carried E 8192 [0, 0, 0, 4, 2, 0, 1, 0] = Some ((1, 0), [0, 1, 0], [0, 0, 0, 4, 2, 0, 1, 0])"
    by (rule sys_started)
  have n: "unat (20 :: u32) < 2 ^ 32" "unat (10 :: u32) < 2 ^ 32" by simp_all
  have "list_all (fs_proper E) ?rs"
    using n by (simp add: fs_proper_def proper_def car unpack_pack_wrap split: option.split)
  from filesystem_follows_image [OF sys_well_set_up st sys_raw fits this] show ?thesis
    by (simp add: sys Let_def del: fs_run.simps fs_image_run.simps)
qed

text \<open>C2: a chunk the server saves is a chunk it reads back: in the setting of the sequences of proper requests, at
  any time of a session, after a write that carries the chunk \<open>(x, z)\<close> of region \<open>(X, Z)\<close> in a
  blob that fits its slot to any region's file, looking up that region's file by its name and reading
  the chunk's slot gives a blob with the same NBT, zeros behind it. The region's coordinates are in
  the range of the inodes, \<open>- 8000000\<close> to \<open>8777215\<close>: beyond it a name leads to another region's file.\<close>

theorem saved_chunk_reads_back:
  assumes "well_set_up X created jb view block entries"
    and "start X created benchmark_set now a d unused = Some (E, s)" and "select_storage a = Some PgRaw"
    and "\<forall>p b. blob_image E (raw_contents view) s p = Some b \<longrightarrow> length b \<le> 262144"
    and "list_all (fs_proper E) rs" and zlib: "zlib_inverse (the_codec X)"
    and car: "carried E off data = Some ((rx * 32 + x, rz * 32 + z), raw, b)" and fits: "length b \<le> 262144"
    and rel: "unat x < 32" "unat z < 32" and range: "in_range rx" "in_range rz"
    and i: "unpack i = Some w"
  shows "\<exists>attr. lookup req 1 (region_filename rx rz) = Inr attr \<and>
    (case write_file E i off data (snd (fs_run E rs s)) of
       (reply, s') \<Rightarrow>
         let bytes = fst (read_file E (ino attr) (get_chunk_file_offset x z) 262144 s')
         in reply = Inr (of_nat (length data)) \<and>
            unwrap_and_decompress_chunk (the_codec X) (take (length b) bytes) =
              unwrap_and_decompress_chunk (the_codec X) data \<and>
            drop (length b) bytes = replicate (262144 - length b) 0)"
proof -
  obtain c where st: "served E entries (raw_contents view) verbatim (on_pool c jb view) s"
    "honest_generator E verbatim" "saves_verbatim E verbatim (on_pool c jb view)"
    and ops: "storage E = Some (postgres_ops (the_nbt X) (the_nums X))" and cd: "compressor E = the_codec X"
    by (rule started_serves [OF assms(1-4)])
  let ?s = "snd (fs_run E rs s)"
  have inv: "served E entries (raw_contents view) verbatim (on_pool c jb view) ?s"
    using fs_run_image [OF st assms(5) prod.collapse [symmetric]] by simp
  note saves = st(3) [unfolded saves_verbatim_def ops option.case, THEN conjunct2, rule_format, OF servedD(2) [OF inv]]
  obtain d' where save: "save_chunk (postgres_ops (the_nbt X) (the_nums X)) (rx * 32 + x) (rz * 32 + z) raw (store ?s)
      = (Inr (), d')"
    using saves [of "rx * 32 + x" "rz * 32 + z" raw] by (metis prod.collapse)
  obtain wx wz where w: "w = (wx, wz)" by (cases w)
  have again: "let r = fst (read_at E (get_chunk_file_offset x z) 262144 rx rz (write_at E off data wx wz ?s))
    in unwrap_and_decompress_chunk (the_codec X) (take (length b) r) = unwrap_and_decompress_chunk (the_codec X) data \<and>
       drop (length b) r = replicate (262144 - length b) 0"
    using chunk_read_back [OF inv _ car fits ops refl save rel, of wx wz] zlib unfolding cd by blast
  have "lookup req 1 (region_filename rx rz) = Inr (owned_by req (FILE_ATTR_TEMPLATE\<lparr>ino := pack rx rz\<rparr>))"
    by (simp add: lookup_def region_filename_utf8 parse_printed)
  moreover have "unpack (pack rx rz) = Some (rx, rz)" using range by (simp add: unpack_pack_wrap wrap24_eq_iff)
  ultimately show ?thesis
    using again by (simp add: write_file_def read_file_def i w owned_by_def Let_def)
qed

theorem saved_chunk_reads_back_witness:
  "let (E, s) = the sys_start
   in \<exists>attr. lookup \<lparr>req_uid = 0, req_gid = 0\<rparr> 1 (region_filename 0 0) = Inr attr \<and>
        unwrap_and_decompress_chunk stored_codec (take 8 (fst (read_file E (ino attr) (get_chunk_file_offset 1 0) 262144
          (snd (write_file E (pack 3 (- 2)) 8192 [0, 0, 0, 4, 2, 0, 1, 0] s))))) = Inr [0, 1, 0]"
proof -
  let ?data = "[0, 0, 0, 4, 2, 0, 1, 0] :: bytes" and ?req = "\<lparr>req_uid = 0, req_gid = 0\<rparr>"
  obtain E s where st: "start sys_libs sys_db False 0 default_args (Map.empty, Map.empty) (mem_storage PgRaw) = Some (E, s)"
    and sys: "sys_start = Some (E, s)"
    and fits: "\<forall>p b. blob_image E (raw_contents mem_view) s p = Some b \<longrightarrow> length b \<le> 262144"
    and car0: "carried E 8192 ?data = Some ((1, 0), [0, 1, 0], ?data)"
    by (rule sys_started)
  have car: "carried E 8192 ?data = Some ((0 * 32 + 1, 0 * 32 + 0), [0, 1, 0], ?data)" using car0 by simp
  have none: "list_all (fs_proper E) []" by simp
  have cd: "the_codec sys_libs = stored_codec" by (simp add: sys_libs_def)
  then have zlib: "zlib_inverse (the_codec sys_libs)" using stored_codec_laws by simp
  have len: "length ?data \<le> 262144" by simp
  have rel: "unat (1 :: i32) < 32" "unat (0 :: i32) < 32" by simp_all
  have range: "in_range 0" by (simp add: in_range_def)
  have i: "unpack (pack 3 (- 2)) = Some (wrap24 3, wrap24 (- 2))" by (simp add: unpack_pack_wrap)
  have un: "unwrap_and_decompress_chunk stored_codec ?data = Inr [0, 1, 0]"
    using carriedD(3) [OF car0] started_serves [OF sys_well_set_up st sys_raw fits] cd by metis
  from saved_chunk_reads_back [OF sys_well_set_up st sys_raw fits none zlib car len rel range range i, of ?req]
  obtain attr where l: "lookup ?req 1 (region_filename 0 0) = Inr attr"
    and r: "unwrap_and_decompress_chunk stored_codec (take (length ?data)
        (fst (read_file E (ino attr) (get_chunk_file_offset 1 0) 262144 (snd (write_file E (pack 3 (- 2)) 8192 ?data s)))))
      = unwrap_and_decompress_chunk stored_codec ?data"
    unfolding cd fs_run.simps snd_conv Let_def case_prod_beta by blast
  have eight: "length ?data = 8" by simp
  show ?thesis using l r unfolding eight un by (auto simp: sys)
qed

end
