(* ===== verification/Accounting.thy ===== *)
theory Accounting
  imports System
begin

text \<open>
  The metrics beside the work: what the FUSE section of the final report says is what the kernel
  asked for. Nothing but the end of \<open>read_at\<close> touches the counters of FUSE requests: not the cache,
  the storage, the generators or the prefetch tasks.
\<close>

subsection \<open>Who touches which counter\<close>

fun target :: "atomic \<Rightarrow> counter" where
  "target (Fetch_add c n) = c"
| "target (Fetch_max c n) = c"
| "target (Store c n) = c"

definition fuse_counters :: "counter set" where
  "fuse_counters = {Total_fuse_read_count, Total_fuse_bytes_sent}"

definition leaves_fuse :: "atomic list \<Rightarrow> bool" where
  "leaves_fuse ops \<longleftrightarrow> (\<forall>a \<in> set ops. target a \<notin> fuse_counters)"

lemma run_leaves:
  assumes "leaves_fuse ops" and "c \<in> fuse_counters"
  shows "cell (run ops m) c = cell m c"
  using assms
proof (induction ops arbitrary: m)
  case (Cons a ops)
  then have "cell (exec a m) c = cell m c" by (cases a) (auto simp: leaves_fuse_def)
  with Cons show ?case by (simp add: run_def leaves_fuse_def)
qed (simp add: run_def)

text \<open>The two counters of a state, if it has metrics at all.\<close>

definition fuse_counts :: "('s, 'c) vf_state \<Rightarrow> (u64 \<times> u64) option" where
  "fuse_counts s = map_option (\<lambda>m. (cell m Total_fuse_read_count, cell m Total_fuse_bytes_sent)) (benchmark s)"

lemma fuse_counters: "Total_fuse_read_count \<in> fuse_counters" "Total_fuse_bytes_sent \<in> fuse_counters"
  by (simp_all add: fuse_counters_def)

lemma counts_note:
  assumes "leaves_fuse ops"
  shows "fuse_counts (note_metrics ops s) = fuse_counts s"
proof -
  have "cell (run ops m) Total_fuse_read_count = cell m Total_fuse_read_count"
    and "cell (run ops m) Total_fuse_bytes_sent = cell m Total_fuse_bytes_sent" for m
    by (rule run_leaves [OF assms fuse_counters(1)], rule run_leaves [OF assms fuse_counters(2)])
  then show ?thesis by (simp add: fuse_counts_def note_metrics_def option.map_comp comp_def)
qed

lemma counts_cong: "benchmark s' = benchmark s \<Longrightarrow> fuse_counts s' = fuse_counts s"
  by (simp add: fuse_counts_def)

lemma counts_elapsed: "(\<And>d. leaves_fuse (f d)) \<Longrightarrow> fuse_counts (note_elapsed f E s) = fuse_counts s"
  unfolding note_elapsed_def by (subst counts_note) (simp, rule counts_cong, simp)

lemma records_leave:
  "leaves_fuse (record_generation d)" "leaves_fuse (record_load d)" "leaves_fuse (record_save d)"
  "leaves_fuse (record_compression d)" "leaves_fuse (record_chunk_sizes i j)"
  "leaves_fuse record_cache_hit" "leaves_fuse record_cache_miss" "leaves_fuse (record_db_size k)"
  "leaves_fuse (record_generation_biomes d)" "leaves_fuse (record_generation_noise d)"
  "leaves_fuse (record_generation_surface d)" "leaves_fuse (record_generation_conversion d)"
  "leaves_fuse (record_serialization d)"
  by (simp_all add: leaves_fuse_def record_defs fuse_counters_def)

lemma leaves_append: "leaves_fuse (xs @ ys) \<longleftrightarrow> leaves_fuse xs \<and> leaves_fuse ys"
  by (auto simp: leaves_fuse_def)

lemma generator_leaves: "leaves_fuse (snd (generator_of P I G clock choice x z t))"
proof (cases choice)
  case Use_flat
  then show ?thesis by (simp add: generator_of_def flat_generator_def leaves_fuse_def)
next
  case (Use_vanilla n)
  have "leaves_fuse ops" if "vanilla_generate_chunk G v c x z = Some (r, ops)" for v c r ops
    using that by (auto simp: vanilla_generate_chunk_def Let_def leaves_append records_leave split: option.splits)
  with Use_vanilla show ?thesis
    by (auto simp: generator_of_def leaves_fuse_def split: option.split)
qed

subsection \<open>What the operations count\<close>

abbreviation counts_nothing :: "('s, 'c) vf_env \<Rightarrow> bool" where
  "counts_nothing E \<equiv> \<forall>x z t. leaves_fuse (snd (generate_chunk E x z t))"

lemma generate_timed_counts:
  assumes "counts_nothing E"
  shows "fuse_counts (snd (generate_timed E x z s)) = fuse_counts s"
proof -
  obtain res ops where g: "generate_chunk E x z (ticks s) = (res, ops)" by fastforce
  then have ops: "leaves_fuse ops" using assms by (metis snd_conv)
  have "fuse_counts (note_elapsed record_generation E (note_metrics ops (s\<lparr>ticks := Suc (ticks s), aborted := b\<rparr>))) = fuse_counts s" for b
    unfolding counts_elapsed [OF records_leave(1)] counts_note [OF ops] by (rule counts_cong) simp
  then show ?thesis by (simp add: generate_timed_def g)
qed

lemma load_or_generate_counts:
  assumes "counts_nothing E"
  shows "fuse_counts (snd (load_or_generate E x z s)) = fuse_counts s"
proof -
  have "fuse_counts (note_elapsed record_load E (after_load r d s)) = fuse_counts s" for r d
    unfolding counts_elapsed [OF records_leave(2)] by (rule counts_cong) simp
  then show ?thesis
    by (simp add: load_or_generate_def Let_def generate_timed_counts [OF assms] split: option.split prod.split sum.split)
qed

lemma fetch_chunk_counts:
  assumes "counts_nothing E"
  shows "fuse_counts (snd (fetch_chunk E x z s)) = fuse_counts s"
proof -
  have cached: "fuse_counts (s\<lparr>cache := c\<rparr>) = fuse_counts s" for c and s :: "('a, 'b) vf_state"
    by (rule counts_cong) simp
  have spawned: "fuse_counts (trigger_prefetch E x z s) = fuse_counts s" for s :: "('a, 'b) vf_state"
    by (rule counts_cong) (simp add: trigger_prefetch_def)
  have loaded: "fuse_counts s1 = fuse_counts s"
    if "load_or_generate E x z (note_metrics record_cache_miss (s\<lparr>cache := c\<rparr>)) = (r, s1)" for c r s1
    using load_or_generate_counts [OF assms, of x z "note_metrics record_cache_miss (s\<lparr>cache := c\<rparr>)"] that
    by (simp add: counts_note records_leave cached)
  show ?thesis
    by (simp add: fetch_chunk_def Let_def loaded cached spawned counts_note counts_elapsed records_leave
        split: option.split prod.split sum.split)
qed

lemma write_at_counts: "fuse_counts (write_at E off data X Z s) = fuse_counts s"
proof -
  have frame: "fuse_counts (s\<lparr>cache := c\<rparr>) = fuse_counts s" "fuse_counts (s\<lparr>store := d\<rparr>) = fuse_counts s"
    for c d and s :: "('a, 'b) vf_state"
    by (rule counts_cong, simp)+
  show ?thesis
    by (simp add: write_at_def Let_def frame counts_elapsed records_leave split: option.split prod.split sum.split)
qed

lemma task_step_counts:
  assumes "counts_nothing E" and "task_step E joined t s = Some (t', s')"
  shows "fuse_counts s' = fuse_counts s"
proof -
  have frame: "fuse_counts (s\<lparr>cache := c\<rparr>) = fuse_counts s" "fuse_counts (s\<lparr>store := d\<rparr>) = fuse_counts s"
    "fuse_counts (s\<lparr>permits := n\<rparr>) = fuse_counts s" "fuse_counts (after_load res d s) = fuse_counts s"
    for c d n res and s :: "('a, 'b) vf_state"
    by (rule counts_cong, simp)+
  have gen: "fuse_counts s1 = fuse_counts s" if "generate_timed E x z s = (r, s1)" for x z r s1
    using generate_timed_counts [OF assms(1), of x z s] that by simp
  show ?thesis
    using assms(2) by (cases t) (auto simp: frame dest: gen split: if_splits option.splits prod.splits sum.splits bool.splits)
qed

lemma prefetch_counts:
  assumes "counts_nothing E"
  shows "fuse_counts (prefetch E p s) = fuse_counts s"
proof -
  have "fuse_counts (snd (run_task n E t s)) = fuse_counts s" for n t
  proof (induction n arbitrary: t s)
    case (Suc n)
    then show ?case using task_step_counts [OF assms] by (auto split: option.split)
  qed simp
  then show ?thesis by (simp add: prefetch_def)
qed

text \<open>A read counts itself and the bytes it was asked for, which are those it answers.\<close>

definition counted :: "nat list \<Rightarrow> (u64 \<times> u64) option \<Rightarrow> (u64 \<times> u64) option" where
  "counted ns = map_option (\<lambda>(k, bytes). (k + of_nat (length ns), bytes + of_nat (sum_list ns)))"

lemma counted_none: "counted [] c = c"
  by (cases c) (simp_all add: counted_def)

lemma counted_append: "counted ms (counted ns c) = counted (ns @ ms) c"
  by (cases c) (auto simp: counted_def algebra_simps)

lemma run_fuse_request:
  "cell (run (record_fuse_request d n) m) Total_fuse_read_count = cell m Total_fuse_read_count + 1"
  "cell (run (record_fuse_request d n) m) Total_fuse_bytes_sent = cell m Total_fuse_bytes_sent + of_nat n"
  by (simp_all add: record_fuse_request_def run_def)

lemma counts_request:
  "fuse_counts (note_elapsed (\<lambda>d. record_fuse_request d n) E s) = counted [n] (fuse_counts s)"
  by (cases "benchmark s") (simp_all add: note_elapsed_def note_metrics_def fuse_counts_def counted_def run_fuse_request)

lemma read_at_counts:
  assumes "counts_nothing E"
  shows "fuse_counts (snd (read_at E off n X Z s)) = counted [n] (fuse_counts s)"
proof -
  obtain resp s1 where loop: "read_loop (fetch_chunk E) X Z off n (read_header E off n) s = (resp, s1)" by fastforce
  have "fuse_counts s1 = fuse_counts s"
    using read_loop_frame [where f = fuse_counts and fetch = "fetch_chunk E" and X = X and Z = Z and off = off and n = n
        and resp = "read_header E off n" and s = s, OF fetch_chunk_counts [OF assms]]
    by (simp add: loop)
  moreover have "length resp \<le> n"
    using read_loop_length [OF read_header_length [of E off n], of "fetch_chunk E" X Z off s] by (simp add: loop)
  ultimately show ?thesis
    by (cases "length resp < n") (simp_all add: read_at_def loop Let_def counts_request)
qed

text \<open>The sizes of the reads that reach the virtual file: those of regions' inodes.\<close>

fun region_reads :: "fs_request list \<Rightarrow> nat list" where
  "region_reads [] = []"
| "region_reads (Fs_read i off n # rs) = (if unpack i = None then region_reads rs else unat n # region_reads rs)"
| "region_reads (_ # rs) = region_reads rs"

lemma fs_serve_counts:
  assumes "counts_nothing E"
  shows "fuse_counts (snd (fs_serve E r s)) = counted (region_reads [r]) (fuse_counts s)"
proof (cases r)
  case (Fs_read i off n)
  then show ?thesis
    using read_at_counts [OF assms, of off "unat n"]
    by (cases "unpack i") (auto simp: read_file_def counted_none split_beta)
next
  case (Fs_write i off data)
  then show ?thesis
    by (cases "unpack i") (auto simp: write_file_def counted_none write_at_counts split_beta)
next
  case (Fs_prefetch p)
  then show ?thesis by (simp add: counted_none prefetch_counts [OF assms])
qed

lemma region_reads_Cons: "region_reads (r # rs) = region_reads [r] @ region_reads rs"
  by (cases r) simp_all

lemma fs_run_counts:
  assumes "counts_nothing E"
  shows "fuse_counts (snd (fs_run E rs s)) = counted (region_reads rs) (fuse_counts s)"
proof (induction rs arbitrary: s)
  case (Cons r rs)
  have "fuse_counts (snd (fs_run E (r # rs) s)) = fuse_counts (snd (fs_run E rs (snd (fs_serve E r s))))"
    by (simp add: split_beta)
  also have "\<dots> = counted (region_reads (r # rs)) (fuse_counts s)"
    unfolding Cons.IH fs_serve_counts [OF assms] counted_append region_reads_Cons [of r rs] by (rule refl)
  finally show ?case .
qed (simp add: counted_none)

lemma virtual_file_for_benchmark:
  "virtual_file_for X choice unused st bench n radius = (E, s) \<Longrightarrow> benchmark s = bench \<and>
     generate_chunk E = generator_of (the_pumpkin X) (the_iter X) (the_gen X) (stage_times X) choice"
  by (auto simp: virtual_file_for_def virtual_file_new_def Let_def split: option.splits)

lemma started:
  assumes "start X created benchmark_set now a d unused = Some (E, s)"
  shows "counts_nothing E" and "benchmark s = make_benchmark benchmark_set now a"
proof -
  obtain st where "virtual_file_for X (select_generator a) unused st (make_benchmark benchmark_set now a)
      (cache_size a) (radius_arg a) = (E, s)"
    using assms by (auto simp: start_def split: option.splits prod.splits if_splits)
  from virtual_file_for_benchmark [OF this]
  show "counts_nothing E" "benchmark s = make_benchmark benchmark_set now a" by (simp_all add: generator_leaves)
qed

lemma counted_from_start:
  assumes "start X created True now a d unused = Some (E, s)"
  shows "fuse_counts (snd (fs_run E rs s)) =
    Some (of_nat (length (region_reads rs)), of_nat (sum_list (region_reads rs)))"
proof -
  have "fuse_counts s = Some (0, 0)"
    by (simp add: fuse_counts_def started(2) [OF assms] make_benchmark_def metrics_new_def)
  then show ?thesis by (simp add: fs_run_counts [OF started(1) [OF assms]] counted_def)
qed

text \<open>The size of the database, recorded at the end, does not count either.\<close>

lemma record_size_counts: "fuse_counts (record_size E s) = fuse_counts s"
proof -
  have frame: "fuse_counts (s\<lparr>store := d\<rparr>) = fuse_counts s" "fuse_counts (s\<lparr>store := d, aborted := b\<rparr>) = fuse_counts s"
    for d b by (rule counts_cong, simp)+
  show ?thesis
    by (simp add: record_size_def frame counts_note records_leave split: option.split prod.split sum.split)
qed

end
