(* ===== verification/Panics.thy ===== *)
theory Panics
  imports System
begin

text \<open>
  Where the program can end in a panic once it has started, and that it does not: the generators panic
  on missing settings and on an index out of range, a load on a column of another type. Over a
  database whose tables have their types, calls of it failing or not, and a Pumpkin with settings of
  whole sections, no request ends the process.
\<close>

subsection \<open>Operations that do not panic\<close>

text \<open>\<open>sinv\<close> holds of every store the operations lead to, and loads from such a store do not panic.\<close>

definition calm :: "('s, 'c) vf_env \<Rightarrow> ('s \<Rightarrow> bool) \<Rightarrow> bool" where
  "calm E sinv \<longleftrightarrow>
     (\<forall>x z t. fst (generate_chunk E x z t) \<noteq> Inl Generator_panicked) \<and>
     (case storage E of
        None \<Rightarrow> True
      | Some ops \<Rightarrow>
          (\<forall>x z s. sinv s \<longrightarrow> fst (load_chunk ops x z s) \<noteq> Inl Row_type_panic \<and> sinv (snd (load_chunk ops x z s))) \<and>
          (\<forall>x z d s. sinv s \<longrightarrow> sinv (snd (save_chunk ops x z d s))) \<and>
          (\<forall>s. sinv s \<longrightarrow> fst (get_total_size ops s) \<noteq> Inl Row_type_panic))"

definition running :: "('s \<Rightarrow> bool) \<Rightarrow> ('s, 'c) vf_state \<Rightarrow> bool" where
  "running sinv s \<longleftrightarrow> sinv (store s) \<and> \<not> aborted s"

lemma calmD:
  assumes "calm E sinv"
  shows "generate_chunk E x z t = (r, ops) \<Longrightarrow> r \<noteq> Inl Generator_panicked"
    and "storage E = Some st \<Longrightarrow> sinv s \<Longrightarrow> load_chunk st x z s = (l, s') \<Longrightarrow> l \<noteq> Inl Row_type_panic \<and> sinv s'"
    and "storage E = Some st \<Longrightarrow> sinv s \<Longrightarrow> save_chunk st x z d s = (w, s') \<Longrightarrow> sinv s'"
    and "storage E = Some st \<Longrightarrow> sinv s \<Longrightarrow> get_total_size st s = (b, s') \<Longrightarrow> b \<noteq> Inl Row_type_panic"
proof -
  note calm = assms [unfolded calm_def]
  show "generate_chunk E x z t = (r, ops) \<Longrightarrow> r \<noteq> Inl Generator_panicked"
    using calm [THEN conjunct1, rule_format, of x z t] by simp
  assume "storage E = Some st" and s: "sinv s"
  then have st: "(\<forall>x z s. sinv s \<longrightarrow> fst (load_chunk st x z s) \<noteq> Inl Row_type_panic \<and> sinv (snd (load_chunk st x z s))) \<and>
      (\<forall>x z d s. sinv s \<longrightarrow> sinv (snd (save_chunk st x z d s))) \<and>
      (\<forall>s. sinv s \<longrightarrow> fst (get_total_size st s) \<noteq> Inl Row_type_panic)"
    using calm [THEN conjunct2] by simp
  show "load_chunk st x z s = (l, s') \<Longrightarrow> l \<noteq> Inl Row_type_panic \<and> sinv s'"
    using st [THEN conjunct1, rule_format, OF s, of x z] by simp
  show "save_chunk st x z d s = (w, s') \<Longrightarrow> sinv s'"
    using st [THEN conjunct2, THEN conjunct1, rule_format, OF s, of x z d] by simp
  show "get_total_size st s = (b, s') \<Longrightarrow> b \<noteq> Inl Row_type_panic"
    using st [THEN conjunct2, THEN conjunct2, rule_format, OF s] by auto
qed

lemma running_simps [simp]:
  "running sinv (note_metrics ops s) = running sinv s" "running sinv (note_elapsed f E s) = running sinv s"
  "running sinv (trigger_prefetch E x z s) = running sinv s"
  "running sinv (s\<lparr>cache := c\<rparr>) = running sinv s" "running sinv (s\<lparr>permits := n\<rparr>) = running sinv s"
  "running sinv (s\<lparr>store := d\<rparr>) = (sinv d \<and> \<not> aborted s)"
  "running sinv (after_load r d s) = (sinv d \<and> \<not> aborted s \<and> r \<noteq> Inl Row_type_panic)"
  by (auto simp: running_def note_metrics_def note_elapsed_def trigger_prefetch_def)

lemma runningD: "running sinv s \<Longrightarrow> sinv (store s)" "running sinv s \<Longrightarrow> \<not> aborted s"
  by (simp_all add: running_def)


lemma generate_timed_running:
  assumes "calm E sinv" and "running sinv s" and "generate_timed E x z s = (r, s')"
  shows "running sinv s'"
proof -
  obtain g ops where g: "generate_chunk E x z (ticks s) = (g, ops)" by fastforce
  have "g \<noteq> Inl Generator_panicked" using calmD(1) [OF assms(1) g] .
  then show ?thesis using assms(2,3) by (auto simp: generate_timed_def g running_def note_elapsed_def note_metrics_def)
qed

lemma load_or_generate_running:
  assumes "calm E sinv" and "running sinv s" and "load_or_generate E x z s = (r, s')"
  shows "running sinv s'"
proof (cases "storage E")
  case None
  then show ?thesis using assms by (auto simp: load_or_generate_def dest: generate_timed_running)
next
  case (Some st)
  obtain l d where load: "load_chunk st x z (store s) = (l, d)" by fastforce
  let ?s1 = "note_elapsed record_load E (after_load l d s)"
  have loaded: "running sinv ?s1"
    using calmD(2) [OF assms(1) Some runningD(1) [OF assms(2)] load] runningD(2) [OF assms(2)] by simp
  have "generate_timed E x z ?s1 = (r, s') \<or> s' = ?s1"
    using assms(3) by (auto simp: load_or_generate_def Some load Let_def split: sum.splits option.splits)
  then show ?thesis using loaded generate_timed_running [OF assms(1) loaded, of x z r s'] by blast
qed

lemma fetch_chunk_running:
  assumes "calm E sinv" and "running sinv s" and "fetch_chunk E x z s = (r, s')"
  shows "running sinv s'"
proof -
  obtain hit c where get: "lru_get (cache_ops E) (x, z) (cache s) = (hit, c)" by fastforce
  obtain g s1 where lg: "load_or_generate E x z (note_metrics record_cache_miss (s\<lparr>cache := c\<rparr>)) = (g, s1)" by fastforce
  have "running sinv s1" by (rule load_or_generate_running [OF assms(1) _ lg]) (simp add: assms(2))
  then show ?thesis
    using assms(2,3) by (auto simp: fetch_chunk_def get lg Let_def split: option.splits sum.splits if_splits)
qed

lemma read_loop_running:
  assumes "calm E sinv" and "running sinv s"
  shows "running sinv (snd (read_loop (fetch_chunk E) X Z off n resp s))"
proof -
  have "running sinv s \<longrightarrow> running sinv (snd (read_loop (fetch_chunk E) X Z off n resp s))"
  proof (induction "n - length resp" arbitrary: resp s rule: less_induct)
    case less
    note loop = read_loop.simps [of "fetch_chunk E" X Z off n resp s]
    have next_turn: "running sinv (snd (read_loop (fetch_chunk E) X Z off n (resp @ piece) s'))"
      if "running sinv s" and "length resp < n" and "get_chunk_coords_from_offset (off + of_nat (length resp)) = Some (x, z)"
        and "fetch_chunk E (X * 32 + x) (Z * 32 + z) s = (b, s')"
        and "slot_piece x z (off + of_nat (length resp)) (n - length resp) blob = Some piece" for x z b blob piece s'
      using less [of "resp @ piece" s'] slot_piece_progress [OF that(3,2,5)] fetch_chunk_running [OF assms(1) that(1,4)] by simp
    show ?case
      using next_turn fetch_chunk_running [OF assms(1)]
      by (auto simp: loop Let_def split: option.split prod.split)
  qed
  with assms(2) show ?thesis by blast
qed

lemma read_at_running:
  assumes "calm E sinv" and "running sinv s"
  shows "running sinv (snd (read_at E off n X Z s))"
  using read_loop_running [OF assms, of X Z off n "read_header E off n"] by (auto simp: read_at_def Let_def split: prod.split)

lemma write_at_running:
  assumes "calm E sinv" and "running sinv s"
  shows "running sinv (write_at E off data X Z s)"
  using assms(2) calmD(3) [OF assms(1) _ runningD(1) [OF assms(2)]] runningD(2) [OF assms(2)]
  by (auto simp: write_at_def Let_def split: option.split prod.split sum.split)

lemma task_step_running:
  assumes "calm E sinv" and "running sinv s" and "task_step E joined t s = Some (t', s')"
  shows "running sinv s'"
proof (cases t)
  case (Check_db p)
  show ?thesis
  proof (cases "storage E")
    case None
    then show ?thesis using assms(2,3) Check_db by simp
  next
    case (Some st)
    obtain l d where load: "load_chunk st (fst p) (snd p) (store s) = (l, d)" by fastforce
    have "running sinv (after_load l d s)"
      using calmD(2) [OF assms(1) Some runningD(1) [OF assms(2)] load] runningD(2) [OF assms(2)] by simp
    then show ?thesis using assms(3) Check_db Some load by (auto split: sum.splits option.splits)
  qed
next
  case (Generate p)
  obtain g s1 where g: "generate_timed E (fst p) (snd p) s = (g, s1)" by fastforce
  have "running sinv s1" by (rule generate_timed_running [OF assms(1,2) g])
  then show ?thesis using assms(3) Generate g by (auto split: bool.splits sum.splits)
next
  case (Save_db p d)
  then show ?thesis
    using assms(2,3) calmD(3) [OF assms(1) _ runningD(1) [OF assms(2)] prod.collapse [symmetric]] runningD(2) [OF assms(2)]
    by (auto split: option.splits)
qed (use assms(2,3) in \<open>auto split: if_splits option.splits\<close>)

lemma run_task_running:
  "calm E sinv \<Longrightarrow> running sinv s \<Longrightarrow> running sinv (snd (run_task n E t s))"
proof (induction n arbitrary: t s)
  case (Suc n)
  then show ?case using task_step_running [OF Suc.prems] by (auto split: option.split)
qed simp

lemma fs_serve_running:
  assumes "calm E sinv" and "running sinv s"
  shows "running sinv (snd (fs_serve E r s))"
proof (cases "region_request r")
  case None
  then show ?thesis using assms(2) fs_serve_other [OF None, of E s] by (auto split: fs_request.split)
next
  case (Some q)
  then show ?thesis
    using fs_serve_region [OF Some, of E s] read_at_running [OF assms] write_at_running [OF assms] run_task_running [OF assms]
    by (cases q) (simp_all add: prefetch_def case_prod_beta)
qed

lemma fs_run_running: "calm E sinv \<Longrightarrow> running sinv s \<Longrightarrow> running sinv (snd (fs_run E rs s))"
proof (induction rs arbitrary: s)
  case (Cons r rs)
  have "running sinv (snd (fs_run E rs (snd (fs_serve E r s))))"
    by (rule Cons.IH [OF Cons.prems(1) fs_serve_running [OF Cons.prems]])
  then show ?case by (simp add: case_prod_beta)
qed simp

lemma handler_step_running:
  assumes "calm E sinv" and "running sinv s" and "handler_step E h s = Some (h', s')"
  shows "running sinv s'"
proof (cases h)
  case (At_load r x z)
  obtain px pz where p: "chunk_of r x z = (px, pz)" by fastforce
  show ?thesis
  proof (cases "storage E")
    case None
    then show ?thesis using assms(2,3) At_load by (simp add: p)
  next
    case (Some st)
    obtain l d where load: "load_chunk st px pz (store s) = (l, d)" by fastforce
    then show ?thesis
      using assms(3) At_load Some calmD(2) [OF assms(1) Some runningD(1) [OF assms(2)] load] runningD(2) [OF assms(2)]
      by (auto simp: p)
  qed
next
  case (At_generate r x z)
  obtain g s1 where g: "generate_timed E (fst (chunk_of r x z)) (snd (chunk_of r x z)) s = (g, s1)" by fastforce
  have "running sinv s1" by (rule generate_timed_running [OF assms(1,2) g])
  then show ?thesis using assms(3) At_generate g by (auto split: sum.splits)
next
  case (At_save p d)
  then show ?thesis
    using assms(2,3) calmD(3) [OF assms(1) _ runningD(1) [OF assms(2)]] runningD(2) [OF assms(2)]
    by (auto split: option.splits prod.splits)
next
  case (At_fill r x z d)
  then show ?thesis
    using assms(2,3) by (auto simp: Let_def split: prod.splits sum.splits option.splits if_splits)
qed (use assms(2,3) in \<open>auto simp: Let_def split: if_splits option.splits prod.splits\<close>)

lemma step_running:
  assumes "calm E sinv" and "step E ok c c'" and "running sinv (fst c)"
  shows "running sinv (fst c')"
  using assms(2)
proof cases
  case (Start_task s p ps ts hs)
  then show ?thesis using assms(3) by (simp add: running_def)
next
  case (Run_task i ts joined s t' s' hs)
  then show ?thesis using task_step_running [OF assms(1)] assms(3) by simp
next
  case (Run_handler i hs k h ts s h' s')
  then show ?thesis using handler_step_running [OF assms(1)] assms(3) by simp
qed

lemma session_running:
  "session E ok s0 past ts hs \<Longrightarrow> calm E sinv \<Longrightarrow> running sinv s0 \<Longrightarrow> running sinv (last past)"
proof (induction rule: session.induct)
  case (Step past ts hs s' ts' hs')
  then show ?case using step_running [OF Step.prems(1) Step.hyps(2)] by simp
qed simp_all

lemma shutdown_running:
  assumes "calm E sinv" and "running sinv s"
  shows "\<not> aborted (snd (shutdown rnd show_duration now E s))"
proof -
  have "\<not> aborted (record_size E s)"
    using runningD(2) [OF assms(2)] calmD(4) [OF assms(1) _ runningD(1) [OF assms(2)]]
    by (auto simp: record_size_def note_metrics_def split: option.split prod.split sum.split)
  then show ?thesis using runningD(2) [OF assms(2)] by (simp add: shutdown_def Let_def)
qed

subsection \<open>The program's own parts\<close>

text \<open>What is relied on of Pumpkin, that there are settings for the overworld, of whole sections, and of
  PostgreSQL, that the size of a relation is a number.\<close>

definition settled :: "('rc, 'nr, 'tc, 'gs, 'pc, 'sub, 'hm, 'light) pumpkin_gen \<Rightarrow> bool" where
  "settled G \<longleftrightarrow> (\<exists>block biome. pumpkin_gen_ok G block biome) \<and>
     (\<exists>gs sects. generation_settings G Setting_Overworld = Some gs \<and> shape_height G gs = 16 * sects)"

definition sized :: "('db, 'n) pg_client \<Rightarrow> bool" where
  "sized c \<longleftrightarrow> (\<forall>t d. fst (pg_query_one c (Relation_size t) d) = None \<or>
     (\<exists>n. fst (pg_query_one c (Relation_size t) d) = Some (Bigint n)))"

lemma vanilla_calm:
  assumes "settled G"
  obtains r where "vanilla_generate_chunk G (vanilla_new G n) clock x z = Some r" and "fst r \<noteq> Inl Generator_panicked"
proof -
  obtain block biome gs sects where ok: "pumpkin_gen_ok G block biome" "shape_height G gs = 16 * sects"
    and gs: "generation_settings G Setting_Overworld = Some gs"
    using assms unfolding settled_def by blast
  have "get_settings G (vanilla_new G n) = Some gs" by (simp add: get_settings_def vanilla_new_def with_dimension_def Let_def gs)
  with chunk_data_copied [OF ok, of "vanilla_proto G (vanilla_new G n) gs x z"] show ?thesis
    by (intro that [of "the (vanilla_generate_chunk G (vanilla_new G n) clock x z)"])
       (auto simp: vanilla_generate_chunk_def Let_def split: option.split)
qed

lemma generator_calm:
  assumes "choice = Use_flat \<or> settled G"
  shows "fst (generator_of P I G clock choice x z t) \<noteq> Inl Generator_panicked"
proof (cases choice)
  case Use_flat
  then show ?thesis by (simp add: generator_of_def flat_generator_def build_def split: option.split)
next
  case (Use_vanilla n)
  then have "settled G" using assms by simp
  then show ?thesis
    by (rule vanilla_calm [of G n "clock t" x z]) (simp add: generator_of_def Use_vanilla)
qed

lemma pg_load_calm:
  assumes "pg_ok (pool s) jb view"
  shows "fst (pg_load_chunk L N x z s) \<noteq> Inl Row_type_panic"
proof -
  note ok = pg_okD [OF assms]
  have rows: "rows = [] \<or> (\<exists>b. rows = [Bytea b])"
    if "fst (pg_query (pool s) (Select_data Chunks_raw) x z d) = Some rows" for rows d
    using ok(7) [OF that] ok(2) [of d] by (auto simp: typed_rows_def split: option.splits)
  have row: "\<exists>j. c = Jsonb j"
    if "fst (pg_query_opt (pool s) (Select_data Chunks_jsonb) x z d) = Some (Some c)" for c d
    using ok(9) [OF that] ok(2) [of d] by (auto simp: typed_rows_def)
  show ?thesis
  proof (cases "mode s")
    case PgRaw
    then show ?thesis
      by (cases "fst (pg_query (pool s) (Select_data Chunks_raw) x z (snd (pool_get (pool s) (db s))))")
         (auto simp: pg_load_chunk_def pg_eval dest!: rows)
  next
    case PgJsonb
    then show ?thesis
      by (cases "fst (pg_query_opt (pool s) (Select_data Chunks_jsonb) x z (snd (pool_get (pool s) (db s))))";
          cases "the (fst (pg_query_opt (pool s) (Select_data Chunks_jsonb) x z (snd (pool_get (pool s) (db s)))))")
         (auto simp: pg_load_chunk_def pg_eval dest!: row split: option.splits)
  qed (simp_all add: pg_load_chunk_def pg_eval)
qed

lemma pg_size_calm:
  assumes "sized (pool s)"
  shows "fst (pg_get_total_size s) \<noteq> Inl Row_type_panic"
proof -
  have "fst (relation_size t r) \<noteq> Inl Row_type_panic" if "sized (pool r)" for t and r :: "('a, 'b) postgres_storage"
    using that [unfolded sized_def, rule_format, of t "db r"] by (auto simp: relation_size_def pg_eval)
  with assms show ?thesis by (simp add: pg_get_total_size_def pg_eval split: storage_mode.split)
qed

lemma postgres_calm:
  assumes "\<forall>x z t. fst (generate_chunk E x z t) \<noteq> Inl Generator_panicked" and "storage E = Some (postgres_ops L N)"
  shows "calm E (\<lambda>s. pg_ok (pool s) jb view \<and> sized (pool s))"
proof -
  have "\<forall>x z s. pg_ok (pool s) jb view \<longrightarrow> fst (pg_load_chunk L N x z s) \<noteq> Inl Row_type_panic"
    by (intro allI impI) (rule pg_load_calm)
  then show ?thesis using assms by (simp add: calm_def postgres_ops_def methods_keep_pool pg_size_calm)
qed

lemma started_calm:
  assumes run: "start X created benchmark_set now a d unused = Some (E, s)"
    and pg: "\<forall>i c. created i = Some c \<longrightarrow> pg_ok c jb view \<and> sized c"
    and gen: "generator_arg a = ''vanilla'' \<longrightarrow> settled (the_gen X)"
  obtains sinv where "calm E sinv" and "running sinv s"
proof -
  obtain st where open_st: "open_storage created a d = Some st"
    and vf: "virtual_file_for X (select_generator a) unused st (make_benchmark benchmark_set now a)
      (cache_size a) (radius_arg a) = (E, s)"
    using run by (auto simp: start_def split: option.splits)
  have choice: "select_generator a = Use_flat \<or> settled (the_gen X)" using gen by (simp add: select_generator_def)
  have "generate_chunk E = generator_of (the_pumpkin X) (the_iter X) (the_gen X) (stage_times X) (select_generator a)"
    using vf by (cases st) (auto simp: virtual_file_for_def virtual_file_new_def)
  then have calm_gen: "\<forall>x z t. fst (generate_chunk E x z t) \<noteq> Inl Generator_panicked"
    using generator_calm [OF choice] by metis
  have fresh: "\<not> aborted s" using vf by (cases st) (auto simp: virtual_file_for_def virtual_file_new_def)
  show ?thesis
  proof (cases st)
    case None
    then have "storage E = None" using vf by (auto simp: virtual_file_for_def virtual_file_new_def)
    with calm_gen fresh show ?thesis by (intro that [of "\<lambda>s. True"]) (simp_all add: calm_def running_def)
  next
    case (Some s0)
    note E = virtual_file_for_fields [OF vf [unfolded Some]]
    obtain k where "created k = Some (pool s0)"
      using open_st Some connect_loop_Some by (fastforce simp: open_storage_def split: option.splits prod.splits)
    then have "pg_ok (pool s0) jb view \<and> sized (pool s0)" using pg by blast
    with postgres_calm [OF calm_gen E(2), of jb view] fresh E(7) show ?thesis
      by (intro that [of "\<lambda>s. pg_ok (pool s) jb view \<and> sized (pool s)"]) (simp_all add: running_def)
  qed
qed

subsection \<open>Property\<close>


text \<open>The vanilla generator over a database whose queries all fail.\<close>

lemma deaf_calls: "pg_ok deaf_client id mem_view \<and> sized deaf_client"
  by (simp add: deaf_client_ok) (simp add: sized_def deaf_client_def mem_client_def)


end
