(* ===== verification/Main_Run.thy ===== *)
theory Main_Run
  imports Accounting Panics "HOL-Library.Sublist"
begin

text \<open>
  \<open>main\<close> of \<open>hoppermc/src/main.rs\<close> from the parsed command line to its end: the storage is opened,
  then either the auto-benchmark runs or the file system serves until a signal ends it, and a report
  is written if there is a benchmark. What the kernel asks for between the mount and the signal is the
  list of requests; the disk is the directory \<open>benchmarks\<close> and its files.
\<close>

subsection \<open>The disk\<close>

text \<open>\<open>allowed\<close> is whether the operating system lets the program write; a file needs its directory.
  A \<open>fs::write\<close> that fails leaves no file. The value returned tells success, which decides only what
  is printed.\<close>

record disk =
  has_benchmarks :: bool
  files :: "string \<rightharpoonup> string"

definition create_dir_all :: "bool \<Rightarrow> disk \<Rightarrow> disk" where
  "create_dir_all allowed D = (if allowed then D\<lparr>has_benchmarks := True\<rparr> else D)"

definition fs_write :: "bool \<Rightarrow> string \<Rightarrow> string \<Rightarrow> disk \<Rightarrow> bool \<times> disk" where
  "fs_write allowed filename content D =
     (if allowed \<and> has_benchmarks D then (True, D\<lparr>files := (files D)(filename \<mapsto> content)\<rparr>) else (False, D))"

definition report_name :: "nat \<Rightarrow> string" where
  "report_name timestamp = ''benchmarks/benchmark-'' @ show_nat timestamp @ ''.txt''"

definition auto_report_name :: "nat \<Rightarrow> string" where
  "auto_report_name timestamp = ''benchmarks/auto-benchmark-'' @ show_nat timestamp @ ''.md''"

definition write_report :: "bool \<Rightarrow> nat \<Rightarrow> string \<Rightarrow> disk \<Rightarrow> disk" where
  "write_report allowed timestamp report D =
     snd (fs_write allowed (report_name timestamp) report (create_dir_all allowed D))"

definition write_auto_report :: "bool \<Rightarrow> nat \<Rightarrow> string \<Rightarrow> disk \<Rightarrow> disk" where
  "write_auto_report allowed timestamp full_report D =
     snd (fs_write allowed (auto_report_name timestamp) full_report D)"

subsection \<open>\<open>main\<close>\<close>

text \<open>What differs from run to run: whether \<open>BENCHMARK\<close> is set, the instants of the start and of the
  report, whether the mount and the handlers of the signals succeed, the time of day of the report in seconds, and for the auto-benchmark the pools it makes,
  what its threads see of the flag and the instants of its reports.\<close>

record ('db, 'n) surroundings =
  pools :: "nat \<Rightarrow> ('db, 'n) pg_client option"
  benchmark_set :: bool
  started_at :: nat
  mounted :: bool
  ended_at :: nat
  epoch_seconds :: nat
  disk_allowed :: bool
  auto_pools :: "nat \<Rightarrow> ('db, 'n) pg_client option"
  auto_flags :: "nat \<Rightarrow> nat \<Rightarrow> bool"
  auto_times :: "nat \<Rightarrow> nat"

text \<open>\<open>None\<close> is a panic, of the start or later, after which nothing is written. The storage is opened
  before the auto-benchmark is looked for, which opens its own.\<close>

definition main_program where
  "main_program X rnd show_duration W a rs d unused D =
     (case open_storage (pools W) a d of
        None \<Rightarrow> None
      | Some st \<Rightarrow>
          if auto_benchmark a then
            map_option (\<lambda>full_report. write_auto_report (disk_allowed W) (epoch_seconds W) full_report D)
              (run_auto_benchmark X rnd show_duration a (auto_pools W) unused (auto_flags W) (auto_times W)
                 (case st of None \<Rightarrow> d | Some s \<Rightarrow> db s))
          else if \<not> mounted W then None
          else
            (case virtual_file_for X (select_generator a) unused st
                (make_benchmark (benchmark_set W) (started_at W) a) (cache_size a) (radius_arg a) of
               (E, s) \<Rightarrow>
                 (case shutdown rnd show_duration (ended_at W) E (snd (fs_run E rs s)) of
                    (report, s) \<Rightarrow>
                      if aborted s then None
                      else Some (case report of
                             None \<Rightarrow> D
                           | Some report \<Rightarrow> write_report (disk_allowed W) (epoch_seconds W) report D))))"

subsection \<open>Lemmas\<close>

text \<open>The line of the report that tells the number of requests.\<close>

lemma sublist_skip: "sublist m ys \<Longrightarrow> sublist m (xs @ ys)"
  unfolding sublist_def by (metis append.assoc)

lemma sublist_here: "sublist (x @ y @ z) (x @ y @ z @ rest)"
  unfolding sublist_def by (metis append.assoc append_Nil)

lemma report_requests_line:
  "sublist (''Requests: '' @ show_nat (unat (fuse_requests r)) @ nl) (report_text config duration r)"
  unfolding report_text_def by (rule sublist_here | rule sublist_skip)+

lemma shutdown_counts:
  assumes "fuse_counts s = Some (k, n)"
  obtains report s' where "shutdown rnd show_duration now E s = (Some report, s')"
    and "sublist (''Requests: '' @ show_nat (unat k) @ nl) report"
proof -
  have counts: "fuse_counts (record_size E s) = Some (k, n)" by (simp add: record_size_counts assms)
  then obtain m where m: "benchmark (record_size E s) = Some m" and k: "cell m Total_fuse_read_count = k"
    by (auto simp: fuse_counts_def)
  have "fuse_requests (numbers rnd now m) = k" by (simp add: numbers_def Let_def k)
  then have "sublist (''Requests: '' @ show_nat (unat k) @ nl) (generate_report rnd show_duration now m)"
    using report_requests_line [of "numbers rnd now m"] by (simp add: generate_report_def)
  moreover have "benchmark s \<noteq> None" using assms by (auto simp: fuse_counts_def)
  ultimately show ?thesis using m by (intro that) (simp_all add: shutdown_def Let_def)
qed

text \<open>The program without the auto-benchmark is its start, its session and its end.\<close>

lemma main_program_normal:
  assumes "\<not> auto_benchmark a" and "mounted W"
  shows "main_program X rnd show_duration W a rs d unused D =
    (case start X (pools W) (benchmark_set W) (started_at W) a d unused of
       None \<Rightarrow> None
     | Some (E, s) \<Rightarrow>
         (case shutdown rnd show_duration (ended_at W) E (snd (fs_run E rs s)) of
            (report, s) \<Rightarrow>
              if aborted s then None
              else Some (case report of
                     None \<Rightarrow> D
                   | Some report \<Rightarrow> write_report (disk_allowed W) (epoch_seconds W) report D)))"
  using assms by (simp add: main_program_def start_def split: option.split prod.split)

lemma write_report_allowed:
  "write_report True t report D = \<lparr>has_benchmarks = True, files = (files D)(report_name t \<mapsto> report)\<rparr>"
  by (simp add: write_report_def fs_write_def create_dir_all_def)

lemma write_auto_report_lost: "\<not> has_benchmarks D \<Longrightarrow> write_auto_report allowed t report D = D"
  by (simp add: write_auto_report_def fs_write_def)

lemma start_opens:
  assumes "open_storage created a d \<noteq> None"
  obtains E s where "start X created bset t0 a d unused = Some (E, s)"
proof -
  obtain y where y: "open_storage created a d = Some y" using assms by blast
  obtain E s where "virtual_file_for X (select_generator a) unused y (make_benchmark bset t0 a)
      (cache_size a) (radius_arg a) = (E, s)" by fastforce
  with y show ?thesis by (intro that) (simp add: start_def)
qed

text \<open>The report of a session: none without the benchmark, and with it one that tells the reads.\<close>

lemma session_report:
  assumes st: "start X created bset t0 a d unused = Some (E, s)"
    and sd: "shutdown rnd show_duration t1 E (snd (fs_run E rs s)) = (report, s')"
  shows "if bset then \<exists>told. report = Some told \<and>
      sublist (''Requests: '' @ show_nat (length (region_reads rs) mod 2 ^ 64) @ nl) told
    else report = None"
proof (cases bset)
  case True
  let ?s = "snd (fs_run E rs s)" and ?n = "length (region_reads rs)"
  have counts: "fuse_counts ?s = Some (of_nat ?n, of_nat (sum_list (region_reads rs)))"
    using counted_from_start st True by simp
  obtain told s'' where "shutdown rnd show_duration t1 E ?s = (Some told, s'')"
    and "sublist (''Requests: '' @ show_nat (unat (of_nat ?n :: u64)) @ nl) told"
    by (rule shutdown_counts [OF counts])
  with True sd show ?thesis by (auto simp: unat_of_nat)
next
  case False
  have "benchmark s = None" using started(2) [OF st] False by (simp add: make_benchmark_def)
  then have "fuse_counts s = None" by (simp add: fuse_counts_def)
  then have "fuse_counts (snd (fs_run E rs s)) = None"
    by (simp add: fs_run_counts [OF started(1) [OF st]] counted_def)
  then have "benchmark (snd (fs_run E rs s)) = None" by (simp add: fuse_counts_def)
  with False sd show ?thesis by (simp add: shutdown_def)
qed

subsection \<open>Property\<close>

text \<open>C40: a run of the program whose storage can be opened and whose mount succeeds ends without a panic,
  whatever the kernel asks of it and whether or not calls of the database fail, provided that rows
  and sizes have their types and, for the vanilla generator, Pumpkin has settings of whole sections.
  Without \<open>BENCHMARK\<close> it leaves the disk as it was; with it, and if the disk may be written, it
  leaves one file more, and the line of it that tells the requests tells the reads of regions' files
  since the start, modulo \<open>2 ^ 64\<close>: reads of other files, writes, prefetching, loading and generating
  do not count. The auto-benchmark does not make the directory it writes to: where there is none, no run
  of it leaves a report.\<close>

theorem main_reports_reads:
  "(\<not> auto_benchmark a \<and> mounted W \<and> open_storage (pools W) a d \<noteq> None \<and>
    (\<forall>i c. pools W i = Some c \<longrightarrow> pg_ok c jb view \<and> sized c) \<and>
    (generator_arg a = ''vanilla'' \<longrightarrow> settled (the_gen X)) \<longrightarrow>
      (\<exists>D'. main_program X rnd show_duration W a rs d unused D = Some D' \<and>
         (\<not> benchmark_set W \<longrightarrow> D' = D) \<and>
         (benchmark_set W \<and> disk_allowed W \<longrightarrow>
            (\<exists>report. D' = \<lparr>has_benchmarks = True, files = (files D)(report_name (epoch_seconds W) \<mapsto> report)\<rparr> \<and>
               sublist (''Requests: '' @ show_nat (length (region_reads rs) mod 2 ^ 64) @ nl) report)))) \<and>
   (auto_benchmark a \<and> \<not> has_benchmarks D \<longrightarrow>
      main_program X rnd show_duration W a rs d unused D \<in> {None, Some D})"
proof (intro conjI impI)
  assume "\<not> auto_benchmark a \<and> mounted W \<and> open_storage (pools W) a d \<noteq> None \<and>
    (\<forall>i c. pools W i = Some c \<longrightarrow> pg_ok c jb view \<and> sized c) \<and>
    (generator_arg a = ''vanilla'' \<longrightarrow> settled (the_gen X))"
  then have normal: "\<not> auto_benchmark a" "mounted W" and opened: "open_storage (pools W) a d \<noteq> None"
    and pg: "\<forall>i c. pools W i = Some c \<longrightarrow> pg_ok c jb view \<and> sized c"
    and gen: "generator_arg a = ''vanilla'' \<longrightarrow> settled (the_gen X)" by blast+
  obtain E s where st: "start X (pools W) (benchmark_set W) (started_at W) a d unused = Some (E, s)"
    using start_opens [OF opened] by blast
  obtain sinv where calm: "calm E sinv" "running sinv s" by (rule started_calm [OF st pg gen])
  obtain report s' where sd: "shutdown rnd show_duration (ended_at W) E (snd (fs_run E rs s)) = (report, s')" by fastforce
  have "\<not> aborted s'" using shutdown_running [OF calm(1) fs_run_running [OF calm]] sd by (metis snd_conv)
  then have run: "main_program X rnd show_duration W a rs d unused D =
      Some (case report of None \<Rightarrow> D | Some report \<Rightarrow> write_report (disk_allowed W) (epoch_seconds W) report D)"
    by (simp add: main_program_normal [OF normal] st sd)
  show "\<exists>D'. main_program X rnd show_duration W a rs d unused D = Some D' \<and>
         (\<not> benchmark_set W \<longrightarrow> D' = D) \<and>
         (benchmark_set W \<and> disk_allowed W \<longrightarrow>
            (\<exists>report. D' = \<lparr>has_benchmarks = True, files = (files D)(report_name (epoch_seconds W) \<mapsto> report)\<rparr> \<and>
               sublist (''Requests: '' @ show_nat (length (region_reads rs) mod 2 ^ 64) @ nl) report))"
    using run session_report [OF st sd]
    by (cases "benchmark_set W") (auto simp: write_report_allowed)
next
  assume "auto_benchmark a \<and> \<not> has_benchmarks D"
  then show "main_program X rnd show_duration W a rs d unused D \<in> {None, Some D}"
    by (auto simp: main_program_def write_auto_report_lost split: option.split)
qed

theorem main_reports_reads_witness:
  "let W = \<lparr>pools = sys_db, benchmark_set = True, started_at = 0, mounted = True, ended_at = 90, epoch_seconds = 7,
             disk_allowed = True, auto_pools = sys_db, auto_flags = \<lambda>i j. False, auto_times = id\<rparr>;
       rs = [Fs_read (pack 0 0) 8190 20, Fs_read 5 0 10, Fs_prefetch (0, 1), Fs_read (pack 3 (- 2)) 0 7];
       D = main_program sys_libs id (\<lambda>_. []) W default_args rs (Map.empty, Map.empty) (mem_storage PgRaw)
             \<lparr>has_benchmarks = False, files = Map.empty\<rparr>
   in \<exists>report. D = Some \<lparr>has_benchmarks = True, files = [''benchmarks/benchmark-7.txt'' \<mapsto> report]\<rparr> \<and>
        sublist (''Requests: 2'' @ nl) report"
proof -
  let ?W = "\<lparr>pools = sys_db, benchmark_set = True, started_at = 0, mounted = True, ended_at = 90, epoch_seconds = 7,
             disk_allowed = True, auto_pools = sys_db, auto_flags = \<lambda>i j. False, auto_times = id\<rparr>"
  let ?rs = "[Fs_read (pack 0 0) 8190 20, Fs_read 5 0 10, Fs_prefetch (0, 1), Fs_read (pack 3 (- 2)) 0 7]"
  have opened: "open_storage (pools ?W) default_args (Map.empty, Map.empty) \<noteq> None"
    by (simp add: open_storage_def sys_raw sys_loop)
  have two: "region_reads ?rs = [20, 7]"
    by (simp add: unpack_pack_wrap unpack_None_iff is_region_inode_def inode_consts)
  have name: "report_name 7 = ''benchmarks/benchmark-7.txt''" by code_simp
  have digit: "show_nat 2 = ''2''" by code_simp
  have len: "length (region_reads ?rs) mod 2 ^ 64 = 2" unfolding two by simp
  have told: "show_nat (length (region_reads ?rs) mod 2 ^ 64) = ''2''" by (simp only: len digit)
  have normal: "\<not> auto_benchmark default_args" "generator_arg default_args \<noteq> ''vanilla''"
    by (simp_all add: default_args_def)
  have calls: "\<forall>i c. pools ?W i = Some c \<longrightarrow> pg_ok c id mem_view \<and> sized c"
    by (auto simp: sys_db_def mem_client_ok sized_def) (simp add: mem_client_def)
  show ?thesis
    using main_reports_reads [of default_args ?W "(Map.empty, Map.empty)" id mem_view sys_libs id "\<lambda>_. []" ?rs "mem_storage PgRaw"
        "\<lparr>has_benchmarks = False, files = Map.empty\<rparr>"] opened normal calls
    unfolding told by (fastforce simp: name)
qed

end
