(* ===== verification/Unit_Tests.thy ===== *)
theory Unit_Tests
  imports Fuse Builder
begin

text \<open>
  The unit tests of the crates \<open>hoppermc-anvil\<close>, \<open>hoppermc-fs\<close>, \<open>hoppermc-storage\<close> and \<open>hoppermc-gen\<close>:
  each test is the truth value of its assertions, over the model of the functions it calls; an \<open>expect\<close>
  or \<open>unwrap\<close> that fails and a \<open>panic!\<close> are a failed assertion. Two groups do not compile as they stand:
  the tests of the virtual file hand over their storage without the \<open>Some\<close> that \<open>VirtualFile::new\<close> asks
  for, the tests of the builder call \<open>build\<close> without the handle of the runtime; here both are there.
\<close>

subsection \<open>\<open>hoppermc-anvil/src/lib.rs\<close>\<close>

definition test_chunk_offset_0_0 :: bool where
  "test_chunk_offset_0_0 \<longleftrightarrow> get_chunk_file_offset 0 0 = HEADER_BYTES"

definition test_chunk_offset_31_0 :: bool where
  "test_chunk_offset_31_0 \<longleftrightarrow>
     get_chunk_file_offset 31 0 = HEADER_BYTES + (31 * SECTORS_PER_CHUNK * SECTOR_BYTES)"

definition test_chunk_offset_0_1 :: bool where
  "test_chunk_offset_0_1 \<longleftrightarrow>
     get_chunk_file_offset 0 1 = HEADER_BYTES + (32 * SECTORS_PER_CHUNK * SECTOR_BYTES)"

definition test_round_trip :: bool where
  "test_round_trip \<longleftrightarrow>
     list_all (\<lambda>z. list_all (\<lambda>x.
       let offset = get_chunk_file_offset x z;
           mid_offset = offset + 1234
       in (case get_chunk_coords_from_offset offset of
             None \<Rightarrow> False
           | Some (res_x, res_z) \<Rightarrow> res_x = x \<and> res_z = z) \<and>
          (case get_chunk_coords_from_offset mid_offset of
             None \<Rightarrow> False
           | Some (res_x_mid, res_z_mid) \<Rightarrow> res_x_mid = x \<and> res_z_mid = z))
       (map of_nat [0..<32])) (map of_nat [0..<32])"

definition test_out_of_bounds :: bool where
  "test_out_of_bounds \<longleftrightarrow>
     get_chunk_coords_from_offset 0 = None \<and>
     get_chunk_coords_from_offset 8191 = None \<and>
     (let max_valid = HEADER_BYTES + (1024 * SECTORS_PER_CHUNK * SECTOR_BYTES)
      in get_chunk_coords_from_offset max_valid = None)"

subsection \<open>\<open>hoppermc-fs/src/inode.rs\<close>\<close>

definition test_pack_unpack :: bool where
  "test_pack_unpack \<longleftrightarrow>
     list_all (\<lambda>(x, z).
       let ino = pack x z
       in is_region_inode ino \<and>
          (case unpack ino of None \<Rightarrow> False | Some (rx, rz) \<Rightarrow> rx = x \<and> rz = z))
       [(0, 0), (1, 1), (- 1, - 1), (100, - 100), (7000000, - 7000000), (- 7999999, 7999999)]"

text \<open>A \<open>&str\<close> as its bytes; the names of the test are ASCII.\<close>

definition str_bytes :: "string \<Rightarrow> bytes" where
  "str_bytes s = map of_char s"

definition test_generic_inodes :: bool where
  "test_generic_inodes \<longleftrightarrow>
     (let name = str_bytes ''backup.mca'';
          ino = pack_generic name;
          ino2 = pack_generic name;
          ino3 = pack_generic (str_bytes ''other.file'')
      in is_generic_inode ino \<and> \<not> is_region_inode ino \<and> ino = ino2 \<and> ino \<noteq> ino3)"

definition test_system_inode :: bool where
  "test_system_inode \<longleftrightarrow> \<not> is_region_inode 1 \<and> \<not> is_region_inode 2 \<and> unpack 1 = None"

subsection \<open>\<open>hoppermc-storage/src/nbt_json.rs\<close>\<close>

definition test_long_array_roundtrip :: "'n num_lib \<Rightarrow> bool" where
  "test_long_array_roundtrip N \<longleftrightarrow>
     (let longs = [1, 2, 3, 4096];
          nbt = VLongArray longs;
          json = nbt_to_json N nbt;
          restored = json_to_nbt N json
      in case restored of VLongArray la \<Rightarrow> la = longs | _ \<Rightarrow> False)"

definition test_list_of_ints_roundtrip :: "'n num_lib \<Rightarrow> bool" where
  "test_list_of_ints_roundtrip N \<longleftrightarrow>
     (let longs = replicate 256 0;
          nbt = VLongArray longs;
          json = nbt_to_json N nbt;
          restored = json_to_nbt N json
      in case restored of VLongArray la \<Rightarrow> length la = 256 \<and> la = longs | _ \<Rightarrow> False)"

definition test_legacy_list_restoration :: "'n num_lib \<Rightarrow> bool" where
  "test_legacy_list_restoration N \<longleftrightarrow>
     (let json = JArray (map (\<lambda>i. JNumber (num_of_i64 N i)) [1, 2, 3]);
          restored = json_to_nbt N json
      in case restored of VList l \<Rightarrow> length l = 3 | _ \<Rightarrow> False)"

subsection \<open>\<open>hoppermc-fs/src/virtual_file.rs\<close>\<close>

definition mock_generator :: generator where
  "mock_generator x z t = (Inr [1, 2, 3, 4], [])"

definition mock_storage :: "unit storage_ops" where
  "mock_storage =
     \<lparr>save_chunk = \<lambda>x z data s. (Inr (), s), load_chunk = \<lambda>x z s. (Inr None, s), get_total_size = default_total_size\<rparr>"

text \<open>The file of both tests: no benchmark, a cache of 500 chunks, no prefetching.\<close>

definition mock_file ::
    "'c lru \<Rightarrow> codec \<Rightarrow> nbt_lib \<Rightarrow> (nat \<Rightarrow> duration) \<Rightarrow> (unit, 'c) vf_env \<times> (unit, 'c) vf_state" where
  "mock_file C cd L clock = virtual_file_new mock_generator (Some mock_storage) C cd L clock () None 500 0"

definition test_virtual_file_read_header ::
    "'c lru \<Rightarrow> codec \<Rightarrow> nbt_lib \<Rightarrow> (nat \<Rightarrow> duration) \<Rightarrow> bool" where
  "test_virtual_file_read_header C cd L clock \<longleftrightarrow>
     (case mock_file C cd L clock of
        (E, s) \<Rightarrow> length (fst (read_at E 0 10 0 0 s)) = 10)"

definition test_virtual_file_read_chunk_offset ::
    "'c lru \<Rightarrow> codec \<Rightarrow> nbt_lib \<Rightarrow> (nat \<Rightarrow> duration) \<Rightarrow> bool" where
  "test_virtual_file_read_chunk_offset C cd L clock \<longleftrightarrow>
     (case mock_file C cd L clock of
        (E, s) \<Rightarrow>
          let chunk_offset = get_chunk_file_offset 0 0;
              data = fst (read_at E chunk_offset 5 0 0 s)
          in length data = 5 \<and> data \<noteq> [0, 0, 0, 0, 0])"

subsection \<open>\<open>hoppermc-gen/src/builder.rs\<close>\<close>

definition test_builder_builds_valid_pumpkin_chunk ::
    "('sec, 'hm, 'light) pumpkin \<Rightarrow> hash_iter \<Rightarrow> nat \<Rightarrow> bool" where
  "test_builder_builds_valid_pumpkin_chunk P I t \<longleftrightarrow>
     (let builder = fill_layer 0 ''minecraft:stone'' builder_new;
          result = build P I t builder 0 0
      in case result of
           Inl e \<Rightarrow> False
         | Inr bytes \<Rightarrow> bytes \<noteq> [])"

definition test_coordinate_serialization ::
    "('sec, 'hm, 'light) pumpkin \<Rightarrow> nbt_lib \<Rightarrow> hash_iter \<Rightarrow> nat \<Rightarrow> bool" where
  "test_coordinate_serialization P L I t \<longleftrightarrow>
     (let builder = builder_new;
          x = 32;
          z = 13
      in case build P I t builder x z of
           Inl e \<Rightarrow> False
         | Inr result \<Rightarrow>
             (case nbt_from_bytes L result of
                Some (VCompound m) \<Rightarrow>
                  (case (fmlookup m ''xPos'', fmlookup m ''zPos'') of
                     (Some x_tag, Some z_tag) \<Rightarrow>
                       (case (nbt_as_i64 L x_tag, nbt_as_i64 L z_tag) of
                          (Some x_val, Some z_val) \<Rightarrow> x_val = scast x \<and> z_val = scast z
                        | _ \<Rightarrow> False)
                   | _ \<Rightarrow> False)
              | _ \<Rightarrow> False))"

text \<open>What these two rely on of Pumpkin's serialiser: a chunk at the given coordinates becomes an NBT
  compound with integer tags \<open>xPos\<close> and \<open>zPos\<close> at its root.\<close>

definition serialises :: "('sec, 'hm, 'light) pumpkin \<Rightarrow> nbt_lib \<Rightarrow> i32 \<Rightarrow> i32 \<Rightarrow> bool" where
  "serialises P L x z \<longleftrightarrow>
     (\<forall>c. chunk_x c = x \<and> chunk_z c = z \<longrightarrow>
        (\<exists>d m x_tag z_tag. to_bytes P c = Some d \<and> nbt_from_bytes L d = Some (VCompound m) \<and>
           fmlookup m ''xPos'' = Some x_tag \<and> fmlookup m ''zPos'' = Some z_tag \<and>
           nbt_as_i64 L x_tag = Some (scast x) \<and> nbt_as_i64 L z_tag = Some (scast z)))"

subsection \<open>Lemmas\<close>

lemma coords_inside:
  assumes "rel_pos (x, z)" and "unat d < slot_bytes"
  shows "get_chunk_coords_from_offset (get_chunk_file_offset x z + d) = Some (x, z)"
proof -
  have "unat (get_chunk_file_offset x z + d) = unat (get_chunk_file_offset x z) + unat d"
    using assms(2) slot_in_file [of x z] by (simp add: unat_word_ariths)
  then show ?thesis using assms by (simp add: coords_Some_iff)
qed

lemma test_round_trip_passes: test_round_trip
proof -
  have rel: "rel_pos (of_nat x, of_nat z)" if "x < 32" "z < 32" for x z
    using that by (simp add: rel_pos_def unat_of_nat)
  have "unat (0 :: u64) < slot_bytes" "unat (1234 :: u64) < slot_bytes" by simp_all
  then show ?thesis
    using coords_inside [OF rel, of _ _ 0] coords_inside [OF rel, of _ _ 1234]
    by (simp add: test_round_trip_def list_all_iff Let_def)
qed

lemma layout_tests_pass:
  test_chunk_offset_0_0 test_chunk_offset_31_0 test_chunk_offset_0_1 test_out_of_bounds
  by (simp_all add: test_chunk_offset_0_0_def test_chunk_offset_31_0_def test_chunk_offset_0_1_def
      test_out_of_bounds_def get_chunk_file_offset_def coords_None_iff region_consts Let_def)

lemma test_pack_unpack_passes: test_pack_unpack
  by (simp add: test_pack_unpack_def Let_def region_flag bit_pack unpack_pack_wrap wrap24_eq_iff in_range_def)

lemma test_generic_inodes_passes: test_generic_inodes
proof -
  have "pack_generic (str_bytes ''backup.mca'') \<noteq> pack_generic (str_bytes ''other.file'')" by code_simp
  then show ?thesis using name_kinds [of "str_bytes ''backup.mca''"] by (simp add: test_generic_inodes_def Let_def)
qed

lemma test_system_inode_passes: test_system_inode
  by (simp add: test_system_inode_def unpack_None_iff is_region_inode_def inode_consts)

lemma json_tests_pass:
  assumes "num_lib_ok N"
  shows "test_long_array_roundtrip N" "test_list_of_ints_roundtrip N" "test_legacy_list_restoration N"
proof -
  have same: "json_to_nbt N (nbt_to_json N (VLongArray ls)) = VLongArray ls" for ls
    using json_roundtrip_canon [OF assms, of "VLongArray ls"] by simp
  show "test_long_array_roundtrip N" "test_list_of_ints_roundtrip N" "test_legacy_list_restoration N"
    by (simp_all add: test_long_array_roundtrip_def test_list_of_ints_roundtrip_def test_legacy_list_restoration_def
        same Let_def del: nbt_to_json.simps)
qed

lemma read_at_length: "length (fst (read_at E off n X Z s)) = n"
  using read_loop_length [OF read_header_length [of E off n], of "fetch_chunk E" X Z off s]
  by (auto simp: read_at_def Let_def split: prod.split)

lemma builder_tests_pass:
  assumes "serialises P L 0 0" and "serialises P L 32 13" and "nbt_from_bytes L [] = None"
  shows "test_builder_builds_valid_pumpkin_chunk P I t" "test_coordinate_serialization P L I t"
proof -
  have built: "\<exists>d m x_tag z_tag. build P I t b x z = Inr d \<and> nbt_from_bytes L d = Some (VCompound m) \<and>
      fmlookup m ''xPos'' = Some x_tag \<and> fmlookup m ''zPos'' = Some z_tag \<and>
      nbt_as_i64 L x_tag = Some (scast x) \<and> nbt_as_i64 L z_tag = Some (scast z)"
    if "serialises P L x z" for b x z
  proof -
    let ?c = "built_chunk P (built_sections P I t b) x z"
    have "chunk_x ?c = x \<and> chunk_z ?c = z" by (simp add: built_chunk_def)
    with that obtain d m x_tag z_tag where "to_bytes P ?c = Some d" "nbt_from_bytes L d = Some (VCompound m)"
      "fmlookup m ''xPos'' = Some x_tag" "fmlookup m ''zPos'' = Some z_tag"
      "nbt_as_i64 L x_tag = Some (scast x)" "nbt_as_i64 L z_tag = Some (scast z)"
      unfolding serialises_def by blast
    then show ?thesis by (simp add: build_def chunk_to_bytes_def)
  qed
  show "test_builder_builds_valid_pumpkin_chunk P I t"
    using built [OF assms(1), of "fill_layer 0 ''minecraft:stone'' builder_new"] assms(3)
    by (auto simp: test_builder_builds_valid_pumpkin_chunk_def)
  show "test_coordinate_serialization P L I t"
    using built [OF assms(2), of builder_new] by (auto simp: test_coordinate_serialization_def)
qed

text \<open>A fresh file whose generator makes what is not NBT.\<close>

lemma mock_chunk:
  assumes "lru_ok C entries" and "nbt_from_bytes L [1, 2, 3, 4] = None"
  shows "fst (fetch_chunk (fst (mock_file C cd L clock)) x z (snd (mock_file C cd L clock))) = None"
proof -
  have "fst (lru_get C (x, z) (lru_new C 500)) = None" using assms(1) by (simp add: lru_ok_def)
  then obtain c where "lru_get C (x, z) (lru_new C 500) = (None, c)" by (metis prod.collapse)
  then show ?thesis
    using assms(2)
    by (simp add: fetch_chunk_def load_or_generate_def generate_timed_def mock_file_def virtual_file_new_def
        mock_storage_def mock_generator_def cache_capacity_def note_elapsed_def note_metrics_def
        verify_chunk_coords_def Let_def)
qed

lemma mock_read:
  assumes "lru_ok C entries" and "nbt_from_bytes L [1, 2, 3, 4] = None"
  shows "fst (read_at (fst (mock_file C cd L clock)) (get_chunk_file_offset 0 0) n 0 0 (snd (mock_file C cd L clock))) = zeros n"
proof -
  let ?E = "fst (mock_file C cd L clock)" and ?s = "snd (mock_file C cd L clock)" and ?at = "get_chunk_file_offset 0 0"
  have "\<not> ?at < HEADER_BYTES" using slot_in_file [of 0 0] by (simp add: word_less_nat_alt region_consts)
  then have hd: "read_header ?E ?at m = []" for m by (simp add: read_header_def)
  obtain s' where none: "fetch_chunk ?E 0 0 ?s = (None, s')"
    using mock_chunk [OF assms, of cd clock 0 0] by (metis prod.collapse)
  have at: "get_chunk_coords_from_offset ?at = Some (0, 0)"
    using coords_inside [of 0 0 0] by (simp add: rel_pos_def)
  have "fst (read_loop (fetch_chunk ?E) 0 0 ?at n [] ?s) = []"
    by (simp add: read_loop.simps Let_def at none)
  then show ?thesis by (auto simp: read_at_def hd Let_def case_prod_beta)
qed

subsection \<open>The tests together\<close>

text \<open>With libraries that keep their contracts every test passes but one: the test that reads at a
  chunk's offset expects bytes of a compressed chunk and fails, with any cache, compressor and clock,
  because its generator makes four bytes that are not NBT and such a chunk reads as zeros.\<close>

lemma tests_but_one_pass:
  assumes "num_lib_ok N" and "lru_ok C entries" and "nbt_from_bytes L [1, 2, 3, 4] = None"
    and "nbt_from_bytes L [] = None" and "serialises P L 0 0" and "serialises P L 32 13"
  shows "test_chunk_offset_0_0 \<and> test_chunk_offset_31_0 \<and> test_chunk_offset_0_1 \<and> test_round_trip \<and>
    test_out_of_bounds \<and> test_pack_unpack \<and> test_generic_inodes \<and> test_system_inode \<and>
    test_long_array_roundtrip N \<and> test_list_of_ints_roundtrip N \<and> test_legacy_list_restoration N \<and>
    test_builder_builds_valid_pumpkin_chunk P I t \<and> test_coordinate_serialization P L I t \<and>
    test_virtual_file_read_header C cd L clock \<and> \<not> test_virtual_file_read_chunk_offset C cd L clock"
proof -
  have "test_virtual_file_read_header C cd L clock"
    by (simp add: test_virtual_file_read_header_def read_at_length case_prod_beta)
  moreover have "\<not> test_virtual_file_read_chunk_offset C cd L clock"
    using mock_read [OF assms(2,3), of cd clock 5]
    by (simp add: test_virtual_file_read_chunk_offset_def case_prod_beta Let_def numeral_eq_Suc)
  ultimately show ?thesis
    by (simp add: layout_tests_pass test_round_trip_passes test_pack_unpack_passes test_generic_inodes_passes
        test_system_inode_passes json_tests_pass [OF assms(1)]
        builder_tests_pass [OF assms(5,6,4)])
qed

end
