(* ===== verification/Spec2Isabelle.thy ===== *)
theory Spec2Isabelle
  imports Region Codec Nbt Nbt_Json Inode Metrics Report Storage Virtual_File File_Image Coherence Serving
    Eviction Handlers Concurrency Interleaving Races Fuse Builder Generator Flat Vanilla Main_Program System
    Accounting Panics Main_Run Unit_Tests
begin

text \<open>
  HopperMC: a FUSE file system that shows a Minecraft server a directory of region files. No file
  exists: a read of one is answered from a fixed header and from chunks that come out of an LRU
  cache, a PostgreSQL table or a world generator; a write is taken apart into the chunk it carries,
  which is saved. This development models the Rust sources under \<open>src/\<close>.

  \<^bold>\<open>Theories and sources.\<close> Names of definitions are those of the source.

  \<^item> \<open>Prelude\<close>: the word types, big-endian bytes, lemmas on words and lists.
  \<^item> \<open>Region\<close>, \<open>Codec\<close>, \<open>Nbt\<close>: \<open>hoppermc-anvil/src/lib.rs\<close>. The header that maps every chunk to a
    slot of 64 sectors, the map from offsets to chunks, the framing and compression of a chunk, the
    check that a chunk declares the coordinates it is served for.
  \<^item> \<open>Nbt_Json\<close>, \<open>Storage\<close>: \<open>hoppermc-storage/src/nbt_json.rs\<close>, \<open>lib.rs\<close>, \<open>postgres.rs\<close>. The conversions
    of the JSONB mode; \<open>PostgresStorage\<close> in its modes. The trait \<open>ChunkStorage\<close> is the record
    \<open>storage_ops\<close>, its contract the locale \<open>chunk_storage\<close>, interpreted on both modes.
  \<^item> \<open>Metrics\<close>, \<open>Report\<close>: \<open>hoppermc-benchmark/src/lib.rs\<close>. Recording methods as lists of atomic operations;
    the numbers and the text of the report.
  \<^item> \<open>Builder\<close>, \<open>Generator\<close>, \<open>Flat\<close>, \<open>Vanilla\<close>: \<open>hoppermc-gen/src/\<close>. The chunk builder, the two
    generators; the contract of the trait \<open>WorldGenerator\<close> is the locale \<open>world_generator\<close>.
  \<^item> \<open>Virtual_File\<close>: \<open>hoppermc-fs/src/virtual_file.rs\<close>. \<open>vf_env\<close> is what a virtual file never changes,
    \<open>vf_state\<close> what it mutates; \<open>read_at\<close>, \<open>write_at\<close> and the prefetch task as a step machine.
    \<open>File_Image\<close> is the specification, a region file as a function of an image of its chunks, with the
    locale \<open>chunk_source\<close> for whatever answers chunk by chunk; \<open>Coherence\<close> shows that the virtual file
    implements it; \<open>Serving\<close> has the properties of reading, writing and prefetching; \<open>Eviction\<close> what
    the cache hides: the other form of a chunk in JSONB mode, and a write that declares no coordinates.
  \<^item> \<open>Handlers\<close>, \<open>Concurrency\<close>, \<open>Interleaving\<close>, \<open>Races\<close>: the same file with many threads. \<open>Handlers\<close> cuts
    \<open>read_at\<close> and \<open>write_at\<close> at their locks and calls; \<open>Concurrency\<close> is the step relation of a session,
    prefetch tasks and handlers in any order, with the semaphore and the end of what was started;
    \<open>Interleaving\<close> shows what reads answer in it, \<open>Races\<close> three interleavings that lose or hide a write.
  \<^item> \<open>Inode\<close>, \<open>Fuse\<close>: \<open>hoppermc-fs/src/inode.rs\<close>, \<open>lib.rs\<close>. Inode numbers; file names and the handlers.
  \<^item> \<open>Main_Program\<close>: \<open>hoppermc/src/main.rs\<close>. The choices of the command line, the retries of the
    start, the assembly of the virtual file, the report at the end, the auto-benchmark.
  \<^item> \<open>System\<close>: the started program behind its FUSE handlers. \<open>Accounting\<close>: what its report counts.
    \<open>Panics\<close>: that it does not panic. \<open>Main_Run\<close>: \<open>main\<close> from its command line to the files it writes.
  \<^item> \<open>Unit_Tests\<close>: the tests of the crates, on the model; two groups lack an argument and do not
    compile, they are taken with it. What is expected of the tests is shown in lemmas.

  \<^bold>\<open>What is shown.\<close>
  \<^item> Layout: offsets and chunks correspond, slots are disjoint, the header leads to them.
  \<^item> Data: framing, compression and the NBT check fit each other; exactly which NBT survives JSON; a
    load returns the last save, as it was in raw mode, in JSONB mode as the conversions make it of what the database hands back, canonical if that is
    the very document.
  \<^item> Serving: \<open>blob_image\<close> abstracts cache, storage and generator to one image of the world. Over a
    storage in raw mode that does not fail and with blobs that fit their slots, every sequence of \<open>proper\<close>
    requests follows it, for the started program through its file names and inodes. Proper is a write
    that is ignored, or whose data declare coordinates and fit the slot; what happens to the others is
    in \<open>Eviction\<close> and \<open>Serving\<close>.
  \<^item> Concurrency: a handler nobody interrupts is \<open>read_at\<close> or \<open>write_at\<close>; at most two prefetch tasks are
    at work, nothing deadlocks and everything started ends; reads are regular where saves declare
    their coordinates, fit their slots and meet no thread at work on the same chunk, and slices of one image where nothing is saved; and the
    interleavings in which a write is lost or hidden.
  \<^item> Generation: the builder gives every block the last name that its calls give it, whatever the hash
    maps do and whether or not the registry has the name; the terrain of
    the flat world; the vanilla generator copies every block and biome and never indexes out of range.
  \<^item> Names and inodes: names, lookups, attributes and inodes agree; where inodes collide.
  \<^item> Metrics: interleaved recordings add up; the report divides by no zero; its requests are the reads
    of region files, whatever else the program did, down to the line in the file that \<open>main\<close> writes.
  \<^item> Panics: a release build aborts on a panic, in whichever thread. The generators, loads and the size
    of the database may panic (\<open>Generator_panicked\<close>, \<open>Row_type_panic\<close>), which sets the flag \<open>aborted\<close>
    of the state; after a successful start nothing sets it, if rows and sizes have their types and the
    overworld has settings of whole sections.
  \<^item> Faults: what reads as zeros, which writes are dropped, which chunks get lost. The faults of the
    code are theorems like the rest, on the code as it is.

  \<^bold>\<open>Conventions.\<close> Machine integers are words of their width and wrap, as in a release build; sizes
  (\<open>usize\<close>) that a \<open>u32\<close> of the protocol bounds are natural numbers. Errors are sums or options; a panic
  of the start and of a whole run is \<open>None\<close>, one of a session the flag \<open>aborted\<close>. Code
  that is not in the repository is a record of functions, with what is relied on of it as a predicate:
  zlib and gzip (\<open>codec\<close>, \<open>zlib_inverse\<close>), fastnbt (\<open>nbt_lib_ok\<close>), serde_json's numbers (\<open>num_lib_ok\<close>),
  the database client (\<open>pg_ok\<close>; \<open>pg_reliable\<close> if no call fails), the LRU cache (\<open>lru_ok\<close>), Pumpkin
  (\<open>pumpkin_ok\<close>, \<open>pumpkin_gen_ok\<close>, \<open>writes_coords\<close>, \<open>gen_writes_coords\<close>). Clocks and whatever differs from
  call to call are oracles. The witnesses instantiate all of these: \<open>tiny_nbt\<close>, \<open>stored_codec\<close>,
  \<open>mem_client\<close>, \<open>list_lru\<close>, \<open>demo_pumpkin\<close>, \<open>demo_gen\<close>.

  \<^bold>\<open>Bounds and fuel.\<close> \<open>read_loop\<close> ends because a position the offset map gives to a chunk lies before the
  end of its slot. \<open>run_task\<close> has seven steps of fuel, which is what a prefetch task takes at most
  (\<open>steps_left\<close>); \<open>run_handler\<close> four steps for every byte of a read and two more, two for a write
  (the theorem of \<open>Handlers\<close>). The measure \<open>work\<close> bounds the steps of a whole session. The start makes
  30 attempts. All other recursion is structural.

  \<^bold>\<open>Not modelled.\<close> The parser of the command line (clap), the mount itself, signals, logging and
  printing; arguments the FUSE handlers ignore; the ticks and block entities of a chunk, always empty;
  the SQL text, of which the statements' effects are relied on. A call of the storage, the generator or
  the cache is one step, and so is a recording method, whose atomic operations \<open>Metrics\<close> interleaves.
  The stress thread of the auto-benchmark makes its reads alone, and a panic of it after the report of
  its configuration is left out. The steps of a session after a panic are not cut off: \<open>aborted\<close> tells
  that they did not happen.
\<close>

end
